theory Spec2Isabelle
  imports Complex_Main "HOL-Library.Word" "HOL-Library.Multiset"
begin


unbundle bit_operations_syntax

section \<open>Processes and the four comparators\<close>

text \<open>
  \<^verbatim>\<open>process_id_t\<close> and \<^verbatim>\<open>time_len_t\<close> are \<^verbatim>\<open>unsigned int\<close>: 32-bit words whose
  arithmetic wraps. \<^verbatim>\<open>priority\<close> is a C \<^verbatim>\<open>int\<close> that is only ever compared, so it is
  kept as the integer it denotes.
\<close>

type_synonym process_id_t = "32 word"
type_synonym time_len_t = "32 word"

record Process_t =
  pid :: process_id_t
  cpu_burst_time :: time_len_t
  io_burst_time :: time_len_t
  arrival_time :: time_len_t
  priority :: int
  waiting_time :: time_len_t
  turnaround_time :: time_len_t

definition SJF_Compare :: "Process_t \<Rightarrow> Process_t \<Rightarrow> bool" where
  "SJF_Compare a b =
     (if cpu_burst_time a \<noteq> cpu_burst_time b then cpu_burst_time a < cpu_burst_time b
      else pid a < pid b)"

definition Priority_Compare :: "Process_t \<Rightarrow> Process_t \<Rightarrow> bool" where
  "Priority_Compare a b =
     (if priority a \<noteq> priority b then priority a < priority b else pid a < pid b)"

definition IO_Burst_Compare :: "Process_t \<Rightarrow> Process_t \<Rightarrow> bool" where
  "IO_Burst_Compare a b =
     (if io_burst_time a \<noteq> io_burst_time b then io_burst_time a < io_burst_time b
      else pid a < pid b)"

definition Simulator_ArrivalTime_Compare :: "Process_t \<Rightarrow> Process_t \<Rightarrow> bool" where
  "Simulator_ArrivalTime_Compare a b =
     (if arrival_time a \<noteq> arrival_time b then arrival_time a < arrival_time b
      else pid a < pid b)"

section \<open>Priority queue: a pointer-linked binary tree\<close>

text \<open>
  A \<^verbatim>\<open>TreeNode *\<close> is either \<^verbatim>\<open>NULL\<close> or a node with its left subtree, its process and
  its right subtree. The \<^verbatim>\<open>parent\<close> pointer is the way back up the path the walker
  came down. \<^verbatim>\<open>count\<close> is a C \<^verbatim>\<open>int\<close>; it is a natural number here, so queues of
  \<open>2 ^ 30\<close> nodes and more, where \<^verbatim>\<open>pos << 1\<close> overflows, are outside the model.
  Dereferencing \<^verbatim>\<open>NULL\<close> is the result \<open>None\<close>.
\<close>

datatype TreeNode = Null | Node TreeNode Process_t TreeNode

record Priority_Queue_t =
  count :: nat
  top :: TreeNode
  compare :: "Process_t \<Rightarrow> Process_t \<Rightarrow> bool"

definition Priority_Init :: "(Process_t \<Rightarrow> Process_t \<Rightarrow> bool) \<Rightarrow> Priority_Queue_t" where
  "Priority_Init cmp = \<lparr> count = 0, top = Null, compare = cmp \<rparr>"

text \<open>
  The loop \<^verbatim>\<open>for (pos = 2; !(pos <= count && count < (pos << 1)); pos = pos << 1)\<close>.
  Started with \<open>count < pos\<close> it never meets its exit condition: that is \<open>None\<close>.
\<close>

function find_pos :: "nat \<Rightarrow> nat \<Rightarrow> nat option" where
  "find_pos pos n =
     (if pos \<le> n \<and> n < push_bit 1 pos then Some pos
      else if 0 < pos \<and> pos \<le> n then find_pos (push_bit 1 pos) n
      else None)"
  by pat_completeness auto
termination
  by (relation "measure (\<lambda>(pos, n). n - pos)") (auto simp: push_bit_eq_mult)

declare find_pos.simps [simp del]

text \<open>
  The swap of the heap adjustment in \<^verbatim>\<open>Priority_Enqueue\<close>, seen from the parent: the
  flag says whether the walker is the root of the child just returned from, that is,
  whether the \<^verbatim>\<open>while (walker->parent != NULL)\<close> loop is still running.
\<close>

fun up_left :: "(Process_t \<Rightarrow> Process_t \<Rightarrow> bool) \<Rightarrow> TreeNode \<Rightarrow> Process_t \<Rightarrow> TreeNode \<Rightarrow> bool
    \<Rightarrow> TreeNode \<times> bool" where
  "up_left cmp (Node a y b) x r up =
     (if up \<and> cmp y x then (Node (Node a x b) y r, True) else (Node (Node a y b) x r, False))"
| "up_left cmp Null x r up = (Node Null x r, False)"

fun up_right :: "(Process_t \<Rightarrow> Process_t \<Rightarrow> bool) \<Rightarrow> TreeNode \<Rightarrow> Process_t \<Rightarrow> TreeNode \<Rightarrow> bool
    \<Rightarrow> TreeNode \<times> bool" where
  "up_right cmp l x (Node a y b) up =
     (if up \<and> cmp y x then (Node l y (Node a x b), True) else (Node l x (Node a y b), False))"
| "up_right cmp l x Null up = (Node l x Null, False)"

text \<open>
  The descent of \<^verbatim>\<open>Priority_Enqueue\<close> from the walker along the bits of \<^verbatim>\<open>count\<close>
  below \<^verbatim>\<open>pos\<close>, the insertion of the new node, and the heap adjustment on the way
  back to the root.
\<close>

fun enqueue_walk :: "(Process_t \<Rightarrow> Process_t \<Rightarrow> bool) \<Rightarrow> nat \<Rightarrow> nat \<Rightarrow> Process_t \<Rightarrow> TreeNode
    \<Rightarrow> (TreeNode \<times> bool) option" where
  "enqueue_walk cmp pos n p Null = None"
| "enqueue_walk cmp pos n p (Node l x r) =
     (if 2 \<le> pos then
        (if pos AND n \<noteq> 0 then
           (case enqueue_walk cmp (drop_bit 1 pos) n p r of
              None \<Rightarrow> None
            | Some (r', up) \<Rightarrow> Some (up_right cmp l x r' up))
         else
           (case enqueue_walk cmp (drop_bit 1 pos) n p l of
              None \<Rightarrow> None
            | Some (l', up) \<Rightarrow> Some (up_left cmp l' x r up)))
      else if pos AND n \<noteq> 0 then Some (up_right cmp l x (Node Null p Null) True)
      else Some (up_left cmp (Node Null p Null) x r True))"

definition Priority_Enqueue :: "Priority_Queue_t \<Rightarrow> Process_t \<Rightarrow> Priority_Queue_t option" where
  "Priority_Enqueue queue process =
     (if count queue = 0 then Some (queue \<lparr> count := 1, top := Node Null process Null \<rparr>)
      else
        (case find_pos 2 (count queue + 1) of
           None \<Rightarrow> None
         | Some pos \<Rightarrow>
             (case enqueue_walk (compare queue) (drop_bit 1 pos) (count queue + 1) process (top queue) of
                None \<Rightarrow> None
              | Some (t, up) \<Rightarrow> Some (queue \<lparr> count := count queue + 1, top := t \<rparr>))))"

text \<open>
  The descent of \<^verbatim>\<open>Priority_Dequeue\<close> to the parent of the last node: the last node is
  unlinked and its process returned.
\<close>

fun dequeue_walk :: "nat \<Rightarrow> nat \<Rightarrow> TreeNode \<Rightarrow> (TreeNode \<times> Process_t) option" where
  "dequeue_walk pos n Null = None"
| "dequeue_walk pos n (Node l x r) =
     (if 2 \<le> pos then
        (if n AND pos \<noteq> 0 then
           (case dequeue_walk (drop_bit 1 pos) n r of
              None \<Rightarrow> None
            | Some (r', p) \<Rightarrow> Some (Node l x r', p))
         else
           (case dequeue_walk (drop_bit 1 pos) n l of
              None \<Rightarrow> None
            | Some (l', p) \<Rightarrow> Some (Node l' x r, p)))
      else if pos AND n \<noteq> 0 then
        (case r of Null \<Rightarrow> None | Node a y b \<Rightarrow> Some (Node l x Null, y))
      else
        (case l of Null \<Rightarrow> None | Node a y b \<Rightarrow> Some (Node Null x r, y)))"

text \<open>The \<^verbatim>\<open>while (1)\<close> heap adjustment of \<^verbatim>\<open>Priority_Dequeue\<close>, from the walker down.\<close>

fun heap_down :: "(Process_t \<Rightarrow> Process_t \<Rightarrow> bool) \<Rightarrow> TreeNode \<Rightarrow> TreeNode option" where
  "heap_down cmp Null = None"
| "heap_down cmp (Node Null x Null) = Some (Node Null x Null)"
| "heap_down cmp (Node (Node a y b) x Null) =
     (if cmp y x then
        (case heap_down cmp (Node a x b) of None \<Rightarrow> None | Some l' \<Rightarrow> Some (Node l' y Null))
      else Some (Node (Node a y b) x Null))"
| "heap_down cmp (Node Null x (Node c z d)) = None"
| "heap_down cmp (Node (Node a y b) x (Node c z d)) =
     (if cmp y z then
        (if cmp y x then
           (case heap_down cmp (Node a x b) of
              None \<Rightarrow> None
            | Some l' \<Rightarrow> Some (Node l' y (Node c z d)))
         else Some (Node (Node a y b) x (Node c z d)))
      else
        (if cmp z x then
           (case heap_down cmp (Node c x d) of
              None \<Rightarrow> None
            | Some r' \<Rightarrow> Some (Node (Node a y b) z r'))
         else Some (Node (Node a y b) x (Node c z d))))"

fun set_process :: "TreeNode \<Rightarrow> Process_t \<Rightarrow> TreeNode option" where
  "set_process Null p = None"
| "set_process (Node l x r) p = Some (Node l p r)"

text \<open>
  \<^verbatim>\<open>Priority_Dequeue\<close>. Its status (0 on an empty queue, 1 otherwise) is ignored by
  every caller and left out; an empty queue is returned as it is.
\<close>

definition Priority_Dequeue :: "Priority_Queue_t \<Rightarrow> Priority_Queue_t option" where
  "Priority_Dequeue queue =
     (if count queue = 0 then Some queue
      else if count queue = 1 then Some (queue \<lparr> count := 0, top := Null \<rparr>)
      else
        (case find_pos 2 (count queue) of
           None \<Rightarrow> None
         | Some pos \<Rightarrow>
             (case dequeue_walk (drop_bit 1 pos) (count queue) (top queue) of
                None \<Rightarrow> None
              | Some (t, p) \<Rightarrow>
                  (case set_process t p of
                     None \<Rightarrow> None
                   | Some t' \<Rightarrow>
                       (case heap_down (compare queue) t' of
                          None \<Rightarrow> None
                        | Some t'' \<Rightarrow> Some (queue \<lparr> count := count queue - 1, top := t'' \<rparr>))))))"

fun Priority_Top :: "Priority_Queue_t \<Rightarrow> Process_t option" where
  "Priority_Top queue =
     (if count queue = 0 then None
      else (case top queue of Null \<Rightarrow> None | Node l x r \<Rightarrow> Some x))"

definition Priority_IsEmpty :: "Priority_Queue_t \<Rightarrow> bool" where
  "Priority_IsEmpty queue = (count queue = 0)"

section \<open>FIFO queue: a singly linked list\<close>

text \<open>
  The chain of \<^verbatim>\<open>ListNode\<close>s from \<^verbatim>\<open>front\<close> is the list of its processes, and
  \<^verbatim>\<open>rear\<close> is its last node. The field \<^verbatim>\<open>count\<close> is named \<open>q_count\<close> here.
  The status returned by \<^verbatim>\<open>Queue_Dequeue\<close> (0 on an empty queue) is ignored by every
  caller and left out.
\<close>

record Queue_t =
  q_count :: nat
  front :: "Process_t list"

definition Queue_Init :: Queue_t where
  "Queue_Init = \<lparr> q_count = 0, front = [] \<rparr>"

definition Queue_Enqueue :: "Queue_t \<Rightarrow> Process_t \<Rightarrow> Queue_t" where
  "Queue_Enqueue queue process =
     (if q_count queue = 0 then queue \<lparr> q_count := 1, front := [process] \<rparr>
      else queue \<lparr> q_count := q_count queue + 1, front := front queue @ [process] \<rparr>)"

definition Queue_Dequeue :: "Queue_t \<Rightarrow> Queue_t option" where
  "Queue_Dequeue queue =
     (if q_count queue = 0 then Some queue
      else (case front queue of
              [] \<Rightarrow> None
            | tmp # next \<Rightarrow> Some (queue \<lparr> q_count := q_count queue - 1, front := next \<rparr>)))"

definition Queue_Front :: "Queue_t \<Rightarrow> Process_t option" where
  "Queue_Front queue =
     (if q_count queue = 0 then None
      else (case front queue of [] \<Rightarrow> None | p # next \<Rightarrow> Some p))"

definition Queue_IsEmpty :: "Queue_t \<Rightarrow> bool" where
  "Queue_IsEmpty queue = (q_count queue = 0)"

text \<open>
  A caller's sequence of calls on one queue. A process is removed by reading
  \<^verbatim>\<open>Queue_Front\<close> and calling \<^verbatim>\<open>Queue_Dequeue\<close>, as \<^verbatim>\<open>Simulator_LoadProcess\<close> does;
  the removed processes are collected in order.
\<close>

datatype queue_call = QEnqueue Process_t | QDequeue

fun queue_calls :: "Queue_t \<Rightarrow> Process_t list \<Rightarrow> queue_call list \<Rightarrow> (Queue_t \<times> Process_t list) option" where
  "queue_calls q out [] = Some (q, out)"
| "queue_calls q out (QEnqueue p # cs) = queue_calls (Queue_Enqueue q p) out cs"
| "queue_calls q out (QDequeue # cs) =
     (case Queue_Dequeue q of
        None \<Rightarrow> None
      | Some q' \<Rightarrow>
          queue_calls q' (case Queue_Front q of None \<Rightarrow> out | Some p \<Rightarrow> out @ [p]) cs)"

fun enqueued :: "queue_call list \<Rightarrow> Process_t list" where
  "enqueued [] = []"
| "enqueued (QEnqueue p # cs) = p # enqueued cs"
| "enqueued (QDequeue # cs) = enqueued cs"

section \<open>The simulator\<close>

text \<open>
  A process pointer is held by exactly one of the job queue, the ready queue, the CPU
  slot, the waiting queue and the terminated queue, so every container holds the
  process itself. \<^verbatim>\<open>ready_queue\<close> is a \<^verbatim>\<open>void *\<close> that the FCFS and Round Robin
  functions read as a \<^verbatim>\<open>Queue_t\<close> and the other four as a \<^verbatim>\<open>Priority_Queue_t\<close>: the type
  parameter \<open>'r\<close>. The averages are \<^verbatim>\<open>double\<close>s: a real number, or \<open>None\<close> for the
  infinities and NaN; rounding is not modelled.

  \<^verbatim>\<open>rand()\<close> is a fixed but arbitrary sequence \<open>R\<close> of numbers; \<open>rand_calls\<close>, which is
  not a field of the C struct, counts the calls made so far.
\<close>

type_synonym avg_time_len_t = "real option"

record 'r Simulator_t =
  num_process :: "32 word"
  generated_processes :: Priority_Queue_t
  terminated_processes :: Priority_Queue_t
  flag :: nat
  cur_cpu_burst :: "Process_t option"
  ready_queue :: 'r
  waiting_queue :: Priority_Queue_t
  elapsed_time :: time_len_t
  idle_time :: time_len_t
  avg_waiting_time :: avg_time_len_t
  avg_turnaround_time :: avg_time_len_t
  max_waiting_time :: time_len_t
  rand_calls :: nat

definition TIME_QUANTUM :: int where "TIME_QUANTUM = 10"

text \<open>
  \<^verbatim>\<open>Simulator_Init\<close>, given the ready queue that its \<^verbatim>\<open>switch (flag)\<close> allocates.
\<close>

definition Simulator_Init :: "nat \<Rightarrow> 'r \<Rightarrow> 'r Simulator_t" where
  "Simulator_Init flg ready =
     \<lparr> num_process = 0,
       generated_processes = Priority_Init Simulator_ArrivalTime_Compare,
       terminated_processes = Priority_Init Simulator_ArrivalTime_Compare,
       flag = flg,
       cur_cpu_burst = None,
       ready_queue = ready,
       waiting_queue = Priority_Init IO_Burst_Compare,
       elapsed_time = 0,
       idle_time = 0,
       avg_waiting_time = Some 0,
       avg_turnaround_time = Some 0,
       max_waiting_time = 0,
       rand_calls = 0 \<rparr>"

definition Simulator_Init_Queue :: "nat \<Rightarrow> Queue_t Simulator_t" where
  "Simulator_Init_Queue flg = Simulator_Init flg Queue_Init"

definition Simulator_Init_Priority ::
    "nat \<Rightarrow> (Process_t \<Rightarrow> Process_t \<Rightarrow> bool) \<Rightarrow> Priority_Queue_t Simulator_t" where
  "Simulator_Init_Priority flg cmp = Simulator_Init flg (Priority_Init cmp)"

text \<open>
  The cloning loop of \<^verbatim>\<open>Simulator_GenerateProcess\<close> for one simulator: the generated
  processes, given as a list in generation order, are enqueued in the job queue.
\<close>

fun enqueue_all :: "Priority_Queue_t \<Rightarrow> Process_t list \<Rightarrow> Priority_Queue_t option" where
  "enqueue_all q [] = Some q"
| "enqueue_all q (p # ps) =
     (case Priority_Enqueue q p of None \<Rightarrow> None | Some q' \<Rightarrow> enqueue_all q' ps)"

definition Simulator_GenerateProcess :: "'r Simulator_t \<Rightarrow> Process_t list \<Rightarrow> 'r Simulator_t option" where
  "Simulator_GenerateProcess s ps =
     (case enqueue_all (generated_processes s) ps of
        None \<Rightarrow> None
      | Some q \<Rightarrow> Some (s \<lparr> num_process := of_nat (length ps), generated_processes := q \<rparr>))"

subsection \<open>The random trial\<close>

fun Probability_loop :: "(nat \<Rightarrow> nat) \<Rightarrow> nat \<Rightarrow> nat \<Rightarrow> nat \<Rightarrow> nat" where
  "Probability_loop R k 0 N = N"
| "Probability_loop R k (Suc i) N =
     Probability_loop R (Suc k) i (if R k mod 2 \<noteq> 0 then N + 1 else N)"

text \<open>\<^verbatim>\<open>Simulator_Probability\<close>, started after \<open>k\<close> calls of \<^verbatim>\<open>rand()\<close>: the result and the new count.\<close>

definition Simulator_Probability :: "(nat \<Rightarrow> nat) \<Rightarrow> nat \<Rightarrow> bool \<times> nat" where
  "Simulator_Probability R k = (50 \<le> Probability_loop R k 100 0, k + 100)"

subsection \<open>Loading the ready queue and the CPU\<close>

function load_arrivals :: "Queue_t Simulator_t \<Rightarrow> Queue_t Simulator_t option" where
  "load_arrivals s =
     (if \<not> Priority_IsEmpty (generated_processes s) then
        (case Priority_Top (generated_processes s) of
           None \<Rightarrow> None
         | Some front_process \<Rightarrow>
             if arrival_time front_process = elapsed_time s then
               (case Priority_Dequeue (generated_processes s) of
                  None \<Rightarrow> None
                | Some job \<Rightarrow>
                    load_arrivals (s \<lparr> ready_queue := Queue_Enqueue (ready_queue s) front_process,
                                       generated_processes := job \<rparr>))
             else Some s)
      else Some s)"
  by pat_completeness auto
termination
  by (relation "measure (\<lambda>s. count (generated_processes s))")
    (auto simp: Priority_IsEmpty_def Priority_Dequeue_def split: if_splits option.splits prod.splits)

declare load_arrivals.simps [simp del]

function load_io_done :: "Queue_t Simulator_t \<Rightarrow> Queue_t Simulator_t option" where
  "load_io_done s =
     (if \<not> Priority_IsEmpty (waiting_queue s) then
        (case Priority_Top (waiting_queue s) of
           None \<Rightarrow> None
         | Some front_process \<Rightarrow>
             if io_burst_time front_process = 0 then
               (case Priority_Dequeue (waiting_queue s) of
                  None \<Rightarrow> None
                | Some waiting \<Rightarrow>
                    load_io_done (s \<lparr> waiting_queue := waiting,
                                      ready_queue := Queue_Enqueue (ready_queue s) front_process \<rparr>))
             else Some s)
      else Some s)"
  by pat_completeness auto
termination
  by (relation "measure (\<lambda>s. count (waiting_queue s))")
    (auto simp: Priority_IsEmpty_def Priority_Dequeue_def split: if_splits option.splits prod.splits)

declare load_io_done.simps [simp del]

definition Simulator_LoadReadyQueue :: "Queue_t Simulator_t \<Rightarrow> Queue_t Simulator_t option" where
  "Simulator_LoadReadyQueue s =
     (case load_arrivals s of None \<Rightarrow> None | Some s' \<Rightarrow> load_io_done s')"

function load_arrivals_Priority :: "Priority_Queue_t Simulator_t \<Rightarrow> Priority_Queue_t Simulator_t option" where
  "load_arrivals_Priority s =
     (if \<not> Priority_IsEmpty (generated_processes s) then
        (case Priority_Top (generated_processes s) of
           None \<Rightarrow> None
         | Some front_process \<Rightarrow>
             if arrival_time front_process = elapsed_time s then
               (case Priority_Enqueue (ready_queue s) front_process of
                  None \<Rightarrow> None
                | Some ready \<Rightarrow>
                    (case Priority_Dequeue (generated_processes s) of
                       None \<Rightarrow> None
                     | Some job \<Rightarrow>
                         load_arrivals_Priority (s \<lparr> ready_queue := ready,
                                                     generated_processes := job \<rparr>)))
             else Some s)
      else Some s)"
  by pat_completeness auto
termination
  by (relation "measure (\<lambda>s. count (generated_processes s))")
    (auto simp: Priority_IsEmpty_def Priority_Dequeue_def split: if_splits option.splits prod.splits)

declare load_arrivals_Priority.simps [simp del]

function load_io_done_Priority :: "Priority_Queue_t Simulator_t \<Rightarrow> Priority_Queue_t Simulator_t option" where
  "load_io_done_Priority s =
     (if \<not> Priority_IsEmpty (waiting_queue s) then
        (case Priority_Top (waiting_queue s) of
           None \<Rightarrow> None
         | Some front_process \<Rightarrow>
             if io_burst_time front_process = 0 then
               (case Priority_Dequeue (waiting_queue s) of
                  None \<Rightarrow> None
                | Some waiting \<Rightarrow>
                    (case Priority_Enqueue (ready_queue s) front_process of
                       None \<Rightarrow> None
                     | Some ready \<Rightarrow>
                         load_io_done_Priority (s \<lparr> waiting_queue := waiting,
                                                    ready_queue := ready \<rparr>)))
             else Some s)
      else Some s)"
  by pat_completeness auto
termination
  by (relation "measure (\<lambda>s. count (waiting_queue s))")
    (auto simp: Priority_IsEmpty_def Priority_Dequeue_def split: if_splits option.splits prod.splits)

declare load_io_done_Priority.simps [simp del]

definition Simulator_LoadReadyQueue_Priority ::
    "Priority_Queue_t Simulator_t \<Rightarrow> Priority_Queue_t Simulator_t option" where
  "Simulator_LoadReadyQueue_Priority s =
     (case load_arrivals_Priority s of None \<Rightarrow> None | Some s' \<Rightarrow> load_io_done_Priority s')"

definition Simulator_LoadProcess :: "Queue_t Simulator_t \<Rightarrow> Queue_t Simulator_t option" where
  "Simulator_LoadProcess s =
     (if cur_cpu_burst s = None then
        (if \<not> Queue_IsEmpty (ready_queue s) then
           (case Queue_Front (ready_queue s) of
              None \<Rightarrow> None
            | Some p \<Rightarrow>
                (case Queue_Dequeue (ready_queue s) of
                   None \<Rightarrow> None
                 | Some ready \<Rightarrow> Some (s \<lparr> cur_cpu_burst := Some p, ready_queue := ready \<rparr>)))
         else Some s)
      else Some s)"

definition Simulator_LoadProcess_Priority ::
    "Priority_Queue_t Simulator_t \<Rightarrow> Priority_Queue_t Simulator_t option" where
  "Simulator_LoadProcess_Priority s =
     (if cur_cpu_burst s = None then
        (if \<not> Priority_IsEmpty (ready_queue s) then
           (case Priority_Top (ready_queue s) of
              None \<Rightarrow> None
            | Some p \<Rightarrow>
                (case Priority_Dequeue (ready_queue s) of
                   None \<Rightarrow> None
                 | Some ready \<Rightarrow> Some (s \<lparr> cur_cpu_burst := Some p, ready_queue := ready \<rparr>)))
         else Some s)
      else Some s)"

subsection \<open>Aging, I/O and evaluation\<close>

definition Simulator_Queue_Waiting :: "Queue_t \<Rightarrow> Queue_t" where
  "Simulator_Queue_Waiting ready =
     ready \<lparr> front := map (\<lambda>p. p \<lparr> waiting_time := waiting_time p + 1,
                                   turnaround_time := turnaround_time p + 1 \<rparr>) (front ready) \<rparr>"

fun Simulator_Priority_Waiting :: "TreeNode \<Rightarrow> TreeNode" where
  "Simulator_Priority_Waiting Null = Null"
| "Simulator_Priority_Waiting (Node l p r) =
     Node (Simulator_Priority_Waiting l)
          (p \<lparr> waiting_time := waiting_time p + 1, turnaround_time := turnaround_time p + 1 \<rparr>)
          (Simulator_Priority_Waiting r)"

fun Simulator_Process_IO :: "TreeNode \<Rightarrow> TreeNode" where
  "Simulator_Process_IO Null = Null"
| "Simulator_Process_IO (Node l p r) =
     Node (Simulator_Process_IO l)
          (p \<lparr> io_burst_time := io_burst_time p - 1, turnaround_time := turnaround_time p + 1 \<rparr>)
          (Simulator_Process_IO r)"

text \<open>
  The \<^verbatim>\<open>while (top_process = Priority_Top(waiting_queue))\<close> loop of
  \<^verbatim>\<open>Simulator_Process_IO_Queue\<close>, with the new queue \<^verbatim>\<open>tmp\<close> as second argument.
\<close>

function IO_Queue_loop :: "(nat \<Rightarrow> nat) \<Rightarrow> Queue_t Simulator_t \<Rightarrow> Priority_Queue_t
    \<Rightarrow> (Queue_t Simulator_t \<times> Priority_Queue_t) option" where
  "IO_Queue_loop R s tmp =
     (if count (waiting_queue s) = 0 then Some (s, tmp)
      else
        (case Priority_Top (waiting_queue s) of
           None \<Rightarrow> None
         | Some top_process \<Rightarrow>
             (case Simulator_Probability R (rand_calls s) of
                (fired, k) \<Rightarrow>
                  (case Priority_Dequeue (waiting_queue s) of
                     None \<Rightarrow> None
                   | Some waiting \<Rightarrow>
                       if fired \<and> 1 < cpu_burst_time top_process then
                         IO_Queue_loop R
                           (s \<lparr> rand_calls := k, waiting_queue := waiting,
                                ready_queue := Queue_Enqueue (ready_queue s) top_process \<rparr>) tmp
                       else
                         (case Priority_Enqueue tmp top_process of
                            None \<Rightarrow> None
                          | Some tmp' \<Rightarrow>
                              IO_Queue_loop R (s \<lparr> rand_calls := k, waiting_queue := waiting \<rparr>) tmp')))))"
  by pat_completeness auto
termination
  by (relation "measure (\<lambda>(R, s, tmp). count (waiting_queue s))")
    (auto simp: Priority_Dequeue_def split: if_splits option.splits prod.splits)

declare IO_Queue_loop.simps [simp del]

definition Simulator_Process_IO_Queue :: "(nat \<Rightarrow> nat) \<Rightarrow> Queue_t Simulator_t \<Rightarrow> Queue_t Simulator_t option" where
  "Simulator_Process_IO_Queue R s =
     (if Priority_IsEmpty (waiting_queue s) then Some s
      else
        (case IO_Queue_loop R s (Priority_Init IO_Burst_Compare) of
           None \<Rightarrow> None
         | Some (s', tmp) \<Rightarrow> Some (s' \<lparr> waiting_queue := tmp \<rparr>)))"

function IO_Priority_loop :: "(nat \<Rightarrow> nat) \<Rightarrow> Priority_Queue_t Simulator_t \<Rightarrow> Priority_Queue_t
    \<Rightarrow> (Priority_Queue_t Simulator_t \<times> Priority_Queue_t) option" where
  "IO_Priority_loop R s tmp =
     (if count (waiting_queue s) = 0 then Some (s, tmp)
      else
        (case Priority_Top (waiting_queue s) of
           None \<Rightarrow> None
         | Some top_process \<Rightarrow>
             (case Simulator_Probability R (rand_calls s) of
                (fired, k) \<Rightarrow>
                  (case Priority_Dequeue (waiting_queue s) of
                     None \<Rightarrow> None
                   | Some waiting \<Rightarrow>
                       if fired \<and> 1 < cpu_burst_time top_process then
                         (case Priority_Enqueue (ready_queue s) top_process of
                            None \<Rightarrow> None
                          | Some ready \<Rightarrow>
                              IO_Priority_loop R
                                (s \<lparr> rand_calls := k, waiting_queue := waiting, ready_queue := ready \<rparr>) tmp)
                       else
                         (case Priority_Enqueue tmp top_process of
                            None \<Rightarrow> None
                          | Some tmp' \<Rightarrow>
                              IO_Priority_loop R (s \<lparr> rand_calls := k, waiting_queue := waiting \<rparr>) tmp')))))"
  by pat_completeness auto
termination
  by (relation "measure (\<lambda>(R, s, tmp). count (waiting_queue s))")
    (auto simp: Priority_Dequeue_def split: if_splits option.splits prod.splits)

declare IO_Priority_loop.simps [simp del]

definition Simulator_Process_IO_Priority ::
    "(nat \<Rightarrow> nat) \<Rightarrow> Priority_Queue_t Simulator_t \<Rightarrow> Priority_Queue_t Simulator_t option" where
  "Simulator_Process_IO_Priority R s =
     (if Priority_IsEmpty (waiting_queue s) then Some s
      else
        (case IO_Priority_loop R s (Priority_Init IO_Burst_Compare) of
           None \<Rightarrow> None
         | Some (s', tmp) \<Rightarrow> Some (s' \<lparr> waiting_queue := tmp \<rparr>)))"

text \<open>
  Division of \<^verbatim>\<open>double\<close>s: a zero divisor gives an infinity or NaN, which is no real
  number.
\<close>

definition double_div :: "real option \<Rightarrow> real option \<Rightarrow> real option" where
  "double_div a b =
     (case (a, b) of
        (Some x, Some y) \<Rightarrow> (if y = 0 then None else Some (x / y))
      | _ \<Rightarrow> None)"

definition double_add :: "real option \<Rightarrow> real option \<Rightarrow> real option" where
  "double_add a b = (case (a, b) of (Some x, Some y) \<Rightarrow> Some (x + y) | _ \<Rightarrow> None)"

definition double_of :: "32 word \<Rightarrow> real option" where
  "double_of w = Some (real (unat w))"

text \<open>The local variable \<^verbatim>\<open>CPU_utilization\<close> of \<^verbatim>\<open>Simulator_Eval\<close>, which it prints.\<close>

definition Eval_CPU_utilization :: "'r Simulator_t \<Rightarrow> real option" where
  "Eval_CPU_utilization s =
     double_div (double_of (elapsed_time s + 1 - idle_time s)) (double_of (elapsed_time s))"

function Eval_loop :: "'r Simulator_t \<Rightarrow> 'r Simulator_t option" where
  "Eval_loop s =
     (if count (terminated_processes s) = 0 then Some s
      else
        (case Priority_Top (terminated_processes s) of
           None \<Rightarrow> None
         | Some tmp \<Rightarrow>
             (case Priority_Dequeue (terminated_processes s) of
                None \<Rightarrow> None
              | Some terminated \<Rightarrow>
                  Eval_loop
                    (s \<lparr> terminated_processes := terminated,
                         avg_waiting_time := double_add (avg_waiting_time s) (double_of (waiting_time tmp)),
                         avg_turnaround_time :=
                           double_add (avg_turnaround_time s) (double_of (turnaround_time tmp)),
                         max_waiting_time :=
                           (if max_waiting_time s < waiting_time tmp then waiting_time tmp
                            else max_waiting_time s) \<rparr>))))"
  by pat_completeness auto
termination
  by (relation "measure (\<lambda>s. count (terminated_processes s))")
    (auto simp: Priority_Dequeue_def split: if_splits option.splits prod.splits)

declare Eval_loop.simps [simp del]

definition Simulator_Eval :: "'r Simulator_t \<Rightarrow> 'r Simulator_t option" where
  "Simulator_Eval s =
     (case Eval_loop s of
        None \<Rightarrow> None
      | Some s' \<Rightarrow>
          Some (s' \<lparr> avg_waiting_time := double_div (avg_waiting_time s') (double_of (num_process s')),
                     avg_turnaround_time :=
                       double_div (avg_turnaround_time s') (double_of (num_process s')) \<rparr>))"

text \<open>The CPU utilization that \<^verbatim>\<open>Simulator_Terminate\<close> prints in a row of the summary table.\<close>

definition Terminate_CPU_Util :: "'r Simulator_t \<Rightarrow> real option" where
  "Terminate_CPU_Util s =
     double_div (double_of (elapsed_time s - idle_time s)) (double_of (elapsed_time s))"

subsection \<open>One CPU tick\<close>

text \<open>
  The three \<^verbatim>\<open>Simulator_CPU_Burst\<close> functions return 1 when all processes have
  terminated: the flag of the result. \<^verbatim>\<open>Simulator_Probability\<close> is called only when
  \<^verbatim>\<open>cpu_burst_time == 1\<close> fails.
\<close>

definition Simulator_CPU_Burst :: "(nat \<Rightarrow> nat) \<Rightarrow> 'r Simulator_t \<Rightarrow> (bool \<times> 'r Simulator_t) option" where
  "Simulator_CPU_Burst R s =
     (case cur_cpu_burst s of
        Some p0 \<Rightarrow>
          (let p = p0 \<lparr> cpu_burst_time := cpu_burst_time p0 - 1,
                        turnaround_time := turnaround_time p0 + 1 \<rparr>
           in if cpu_burst_time p \<noteq> 0 then
                (if io_burst_time p \<noteq> 0 then
                   (if cpu_burst_time p = 1 then
                      (case Priority_Enqueue (waiting_queue s) p of
                         None \<Rightarrow> None
                       | Some waiting \<Rightarrow>
                           Some (False, s \<lparr> waiting_queue := waiting, cur_cpu_burst := None \<rparr>))
                    else
                      (case Simulator_Probability R (rand_calls s) of
                         (fired, k) \<Rightarrow>
                           if fired then
                             (case Priority_Enqueue (waiting_queue s) p of
                                None \<Rightarrow> None
                              | Some waiting \<Rightarrow>
                                  Some (False, s \<lparr> rand_calls := k, waiting_queue := waiting,
                                                   cur_cpu_burst := None \<rparr>))
                           else Some (False, s \<lparr> rand_calls := k, cur_cpu_burst := Some p \<rparr>)))
                 else Some (False, s \<lparr> cur_cpu_burst := Some p \<rparr>))
              else
                (case Priority_Enqueue (terminated_processes s) p of
                   None \<Rightarrow> None
                 | Some terminated \<Rightarrow>
                     (let s' = s \<lparr> terminated_processes := terminated, cur_cpu_burst := None \<rparr>
                      in if of_nat (count terminated) = num_process s then
                           (case Simulator_Eval s' of None \<Rightarrow> None | Some s'' \<Rightarrow> Some (True, s''))
                         else Some (False, s'))))
      | None \<Rightarrow> Some (False, s \<lparr> idle_time := idle_time s + 1 \<rparr>))"

text \<open>
  The first statement of \<^verbatim>\<open>Simulator_CPU_Burst_Preemptive\<close>: the running process is
  preempted when the head of the ready queue compares ahead of it.
\<close>

definition Preemptive_decision :: "Priority_Queue_t Simulator_t \<Rightarrow> Priority_Queue_t Simulator_t option" where
  "Preemptive_decision s0 =
     (case cur_cpu_burst s0 of
        None \<Rightarrow> Some s0
      | Some running \<Rightarrow>
          if \<not> Priority_IsEmpty (ready_queue s0) then
            (case top (ready_queue s0) of
               Null \<Rightarrow> None
             | Node l head r \<Rightarrow>
                 if compare (ready_queue s0) head running then
                   (case Priority_Enqueue (ready_queue s0) running of
                      None \<Rightarrow> None
                    | Some ready \<Rightarrow>
                        Simulator_LoadProcess_Priority
                          (s0 \<lparr> ready_queue := ready, cur_cpu_burst := None \<rparr>))
                 else Some s0)
          else Some s0)"

definition Simulator_CPU_Burst_Preemptive ::
    "(nat \<Rightarrow> nat) \<Rightarrow> Priority_Queue_t Simulator_t \<Rightarrow> (bool \<times> Priority_Queue_t Simulator_t) option" where
  "Simulator_CPU_Burst_Preemptive R s0 =
     (case Preemptive_decision s0
      of
        None \<Rightarrow> None
      | Some s \<Rightarrow>
          (case cur_cpu_burst s of
             Some p0 \<Rightarrow>
               (let p = p0 \<lparr> turnaround_time := turnaround_time p0 + 1,
                             cpu_burst_time := cpu_burst_time p0 - 1 \<rparr>
                in if cpu_burst_time p \<noteq> 0 then
                     (if io_burst_time p \<noteq> 0 then
                        (if cpu_burst_time p = 1 then
                           (case Priority_Enqueue (waiting_queue s) p of
                              None \<Rightarrow> None
                            | Some waiting \<Rightarrow>
                                Some (False, s \<lparr> waiting_queue := waiting, cur_cpu_burst := None \<rparr>))
                         else
                           (case Simulator_Probability R (rand_calls s) of
                              (fired, k) \<Rightarrow>
                                if fired then
                                  (case Priority_Enqueue (waiting_queue s) p of
                                     None \<Rightarrow> None
                                   | Some waiting \<Rightarrow>
                                       Some (False, s \<lparr> rand_calls := k, waiting_queue := waiting,
                                                        cur_cpu_burst := None \<rparr>))
                                else Some (False, s \<lparr> rand_calls := k, cur_cpu_burst := Some p \<rparr>)))
                      else Some (False, s \<lparr> cur_cpu_burst := Some p \<rparr>))
                   else
                     (case Priority_Enqueue (terminated_processes s) p of
                        None \<Rightarrow> None
                      | Some terminated \<Rightarrow>
                          (let s' = s \<lparr> terminated_processes := terminated, cur_cpu_burst := None \<rparr>
                           in if of_nat (count terminated) = num_process s then
                                (case Simulator_Eval s' of None \<Rightarrow> None | Some s'' \<Rightarrow> Some (True, s''))
                              else Some (False, s'))))
           | None \<Rightarrow> Some (False, s \<lparr> idle_time := idle_time s + 1 \<rparr>)))"

text \<open>
  \<^verbatim>\<open>Simulator_CPU_Burst_RR\<close>, with \<^verbatim>\<open>*time_quantum\<close> as argument and third result. When
  the quantum test finds the CPU slot empty, the C code enqueues a \<^verbatim>\<open>NULL\<close> process:
  that is \<open>None\<close>.
\<close>

definition RR_quantum :: "Queue_t Simulator_t \<Rightarrow> int \<Rightarrow> (bool \<times> Queue_t Simulator_t \<times> int) option" where
  "RR_quantum s tq =
     (if tq = TIME_QUANTUM then
        (case cur_cpu_burst s of
           None \<Rightarrow> None
         | Some p \<Rightarrow>
             Some (False, s \<lparr> ready_queue := Queue_Enqueue (ready_queue s) p, cur_cpu_burst := None \<rparr>, 0))
      else Some (False, s, tq))"

definition Simulator_CPU_Burst_RR ::
    "(nat \<Rightarrow> nat) \<Rightarrow> Queue_t Simulator_t \<Rightarrow> int \<Rightarrow> (bool \<times> Queue_t Simulator_t \<times> int) option" where
  "Simulator_CPU_Burst_RR R s time_quantum =
     (case cur_cpu_burst s of
        Some p0 \<Rightarrow>
          (let p = p0 \<lparr> cpu_burst_time := cpu_burst_time p0 - 1,
                        turnaround_time := turnaround_time p0 + 1 \<rparr>;
               tq = time_quantum + 1
           in if cpu_burst_time p \<noteq> 0 then
                (if io_burst_time p \<noteq> 0 then
                   (if cpu_burst_time p = 1 then
                      (case Priority_Enqueue (waiting_queue s) p of
                         None \<Rightarrow> None
                       | Some waiting \<Rightarrow>
                           RR_quantum (s \<lparr> waiting_queue := waiting, cur_cpu_burst := None \<rparr>) 0)
                    else
                      (case Simulator_Probability R (rand_calls s) of
                         (fired, k) \<Rightarrow>
                           if fired then
                             (case Priority_Enqueue (waiting_queue s) p of
                                None \<Rightarrow> None
                              | Some waiting \<Rightarrow>
                                  RR_quantum (s \<lparr> rand_calls := k, waiting_queue := waiting,
                                                  cur_cpu_burst := None \<rparr>) 0)
                           else RR_quantum (s \<lparr> rand_calls := k, cur_cpu_burst := Some p \<rparr>) tq))
                 else RR_quantum (s \<lparr> cur_cpu_burst := Some p \<rparr>) tq)
              else
                (case Priority_Enqueue (terminated_processes s) p of
                   None \<Rightarrow> None
                 | Some terminated \<Rightarrow>
                     (let s' = s \<lparr> terminated_processes := terminated, cur_cpu_burst := None \<rparr>
                      in if of_nat (count terminated) = num_process s then
                           (case Simulator_Eval s' of None \<Rightarrow> None | Some s'' \<Rightarrow> Some (True, s'', 0))
                         else Some (False, s', 0))))
      | None \<Rightarrow> Some (False, s \<lparr> idle_time := idle_time s + 1 \<rparr>, time_quantum))"

subsection \<open>The six scheduling loops\<close>

text \<open>
  The part of a loop body before the CPU tick: loading, aging of the ready queue, the
  I/O advance and the random I/O interrupts, in the order of the source.
\<close>

definition Queue_before_IO :: "Queue_t Simulator_t \<Rightarrow> Queue_t Simulator_t option" where
  "Queue_before_IO s =
     (case Simulator_LoadReadyQueue s of
        None \<Rightarrow> None
      | Some s1 \<Rightarrow>
          (case Simulator_LoadProcess s1 of
             None \<Rightarrow> None
           | Some s2 \<Rightarrow> Some (s2 \<lparr> ready_queue := Simulator_Queue_Waiting (ready_queue s2) \<rparr>)))"

definition Queue_before_CPU :: "(nat \<Rightarrow> nat) \<Rightarrow> Queue_t Simulator_t \<Rightarrow> Queue_t Simulator_t option" where
  "Queue_before_CPU R s =
     (case Queue_before_IO s of
        None \<Rightarrow> None
      | Some s3 \<Rightarrow>
          Simulator_Process_IO_Queue R
            (s3 \<lparr> waiting_queue := (waiting_queue s3)
                     \<lparr> top := Simulator_Process_IO (top (waiting_queue s3)) \<rparr> \<rparr>))"

definition Priority_before_IO :: "Priority_Queue_t Simulator_t \<Rightarrow> Priority_Queue_t Simulator_t option" where
  "Priority_before_IO s =
     (case Simulator_LoadReadyQueue_Priority s of
        None \<Rightarrow> None
      | Some s1 \<Rightarrow>
          (case Simulator_LoadProcess_Priority s1 of
             None \<Rightarrow> None
           | Some s2 \<Rightarrow>
               Some (s2 \<lparr> ready_queue := (ready_queue s2)
                            \<lparr> top := Simulator_Priority_Waiting (top (ready_queue s2)) \<rparr> \<rparr>)))"

definition Priority_before_CPU ::
    "(nat \<Rightarrow> nat) \<Rightarrow> Priority_Queue_t Simulator_t \<Rightarrow> Priority_Queue_t Simulator_t option" where
  "Priority_before_CPU R s =
     (case Priority_before_IO s of
        None \<Rightarrow> None
      | Some s3 \<Rightarrow>
          Simulator_Process_IO_Priority R
            (s3 \<lparr> waiting_queue := (waiting_queue s3)
                     \<lparr> top := Simulator_Process_IO (top (waiting_queue s3)) \<rparr> \<rparr>))"

definition FCFS_body :: "(nat \<Rightarrow> nat) \<Rightarrow> Queue_t Simulator_t \<Rightarrow> (bool \<times> Queue_t Simulator_t) option" where
  "FCFS_body R s = (case Queue_before_CPU R s of None \<Rightarrow> None | Some s' \<Rightarrow> Simulator_CPU_Burst R s')"

definition NonPreemptive_body ::
    "(nat \<Rightarrow> nat) \<Rightarrow> Priority_Queue_t Simulator_t \<Rightarrow> (bool \<times> Priority_Queue_t Simulator_t) option" where
  "NonPreemptive_body R s =
     (case Priority_before_CPU R s of None \<Rightarrow> None | Some s' \<Rightarrow> Simulator_CPU_Burst R s')"

definition Preemptive_body ::
    "(nat \<Rightarrow> nat) \<Rightarrow> Priority_Queue_t Simulator_t \<Rightarrow> (bool \<times> Priority_Queue_t Simulator_t) option" where
  "Preemptive_body R s =
     (case Priority_before_CPU R s of
        None \<Rightarrow> None
      | Some s' \<Rightarrow> Simulator_CPU_Burst_Preemptive R s')"

definition RoundRobin_body ::
    "(nat \<Rightarrow> nat) \<Rightarrow> Queue_t Simulator_t \<Rightarrow> int \<Rightarrow> (bool \<times> Queue_t Simulator_t \<times> int) option" where
  "RoundRobin_body R s tq =
     (case Queue_before_CPU R s of None \<Rightarrow> None | Some s' \<Rightarrow> Simulator_CPU_Burst_RR R s' tq)"

text \<open>
  The \<^verbatim>\<open>while (1)\<close> loops. A run that never returns has the value \<open>None\<close>, as has a run
  that dereferences \<^verbatim>\<open>NULL\<close>.
\<close>

partial_function (option) Simulator_FCFS ::
    "(nat \<Rightarrow> nat) \<Rightarrow> Queue_t Simulator_t \<Rightarrow> Queue_t Simulator_t option" where
  "Simulator_FCFS R s =
     (case FCFS_body R s of
        None \<Rightarrow> None
      | Some (finished, s') \<Rightarrow>
          if finished then Some s' else Simulator_FCFS R (s' \<lparr> elapsed_time := elapsed_time s' + 1 \<rparr>))"

partial_function (option) Simulator_NonPreemptiveSJF ::
    "(nat \<Rightarrow> nat) \<Rightarrow> Priority_Queue_t Simulator_t \<Rightarrow> Priority_Queue_t Simulator_t option" where
  "Simulator_NonPreemptiveSJF R s =
     (case NonPreemptive_body R s of
        None \<Rightarrow> None
      | Some (finished, s') \<Rightarrow>
          if finished then Some s'
          else Simulator_NonPreemptiveSJF R (s' \<lparr> elapsed_time := elapsed_time s' + 1 \<rparr>))"

partial_function (option) Simulator_PreemptiveSJF ::
    "(nat \<Rightarrow> nat) \<Rightarrow> Priority_Queue_t Simulator_t \<Rightarrow> Priority_Queue_t Simulator_t option" where
  "Simulator_PreemptiveSJF R s =
     (case Preemptive_body R s of
        None \<Rightarrow> None
      | Some (finished, s') \<Rightarrow>
          if finished then Some s'
          else Simulator_PreemptiveSJF R (s' \<lparr> elapsed_time := elapsed_time s' + 1 \<rparr>))"

partial_function (option) Simulator_NonPreemptivePriority ::
    "(nat \<Rightarrow> nat) \<Rightarrow> Priority_Queue_t Simulator_t \<Rightarrow> Priority_Queue_t Simulator_t option" where
  "Simulator_NonPreemptivePriority R s =
     (case NonPreemptive_body R s of
        None \<Rightarrow> None
      | Some (finished, s') \<Rightarrow>
          if finished then Some s'
          else Simulator_NonPreemptivePriority R (s' \<lparr> elapsed_time := elapsed_time s' + 1 \<rparr>))"

partial_function (option) Simulator_PreemptivePriority ::
    "(nat \<Rightarrow> nat) \<Rightarrow> Priority_Queue_t Simulator_t \<Rightarrow> Priority_Queue_t Simulator_t option" where
  "Simulator_PreemptivePriority R s =
     (case Preemptive_body R s of
        None \<Rightarrow> None
      | Some (finished, s') \<Rightarrow>
          if finished then Some s'
          else Simulator_PreemptivePriority R (s' \<lparr> elapsed_time := elapsed_time s' + 1 \<rparr>))"

partial_function (option) RoundRobin_loop ::
    "(nat \<Rightarrow> nat) \<Rightarrow> Queue_t Simulator_t \<Rightarrow> int \<Rightarrow> Queue_t Simulator_t option" where
  "RoundRobin_loop R s time_quantum =
     (case RoundRobin_body R s time_quantum of
        None \<Rightarrow> None
      | Some (finished, s', tq) \<Rightarrow>
          if finished then Some s'
          else RoundRobin_loop R (s' \<lparr> elapsed_time := elapsed_time s' + 1 \<rparr>) tq)"

definition Simulator_RoundRobin :: "(nat \<Rightarrow> nat) \<Rightarrow> Queue_t Simulator_t \<Rightarrow> Queue_t Simulator_t option" where
  "Simulator_RoundRobin R s = RoundRobin_loop R s 0"

section \<open>Heap order and tree shape\<close>

definition swo :: "('a \<Rightarrow> 'a \<Rightarrow> bool) \<Rightarrow> bool" where
  "swo cmp = ((\<forall>a. \<not> cmp a a) \<and> (\<forall>a b c. cmp a b \<and> cmp b c \<longrightarrow> cmp a c)
     \<and> (\<forall>a b c. \<not> cmp a b \<and> \<not> cmp b c \<longrightarrow> \<not> cmp a c))"

fun le_root :: "(Process_t \<Rightarrow> Process_t \<Rightarrow> bool) \<Rightarrow> Process_t \<Rightarrow> TreeNode \<Rightarrow> bool" where
  "le_root cmp x Null = True"
| "le_root cmp x (Node l y r) = (\<not> cmp y x)"

fun heap_ok :: "(Process_t \<Rightarrow> Process_t \<Rightarrow> bool) \<Rightarrow> TreeNode \<Rightarrow> bool" where
  "heap_ok cmp Null = True"
| "heap_ok cmp (Node l x r) = (le_root cmp x l \<and> le_root cmp x r \<and> heap_ok cmp l \<and> heap_ok cmp r)"

fun shp :: "nat \<Rightarrow> nat \<Rightarrow> TreeNode \<Rightarrow> bool" where
  "shp 0 c Null = (c = 0)"
| "shp 0 c (Node l x r) = (c = 1 \<and> l = Null \<and> r = Null)"
| "shp (Suc h) c Null = False"
| "shp (Suc h) c (Node l x r) = (c \<le> 2 ^ Suc h \<and> shp h (min c (2 ^ h)) l \<and> shp h (c - 2 ^ h) r)"

fun procs :: "TreeNode \<Rightarrow> Process_t multiset" where
  "procs Null = {#}"
| "procs (Node l x r) = procs l + {#x#} + procs r"

fun root :: "TreeNode \<Rightarrow> Process_t option" where
  "root Null = None"
| "root (Node l x r) = Some x"

fun children_ge :: "(Process_t \<Rightarrow> Process_t \<Rightarrow> bool) \<Rightarrow> Process_t \<Rightarrow> TreeNode \<Rightarrow> bool" where
  "children_ge cmp v Null = True"
| "children_ge cmp v (Node a y b) = (le_root cmp v a \<and> le_root cmp v b)"

definition walk_post :: "(Process_t \<Rightarrow> Process_t \<Rightarrow> bool) \<Rightarrow> Process_t \<Rightarrow> TreeNode \<Rightarrow> TreeNode \<Rightarrow> bool \<Rightarrow> bool" where
  "walk_post cmp p t t' up = (heap_ok cmp t' \<and> procs t' = procs t + {#p#} \<and> t' \<noteq> Null
     \<and> (up \<longrightarrow> root t' = Some p) \<and> (\<not> up \<longrightarrow> root t' = root t)
     \<and> (\<forall>v. le_root cmp v t \<longrightarrow> children_ge cmp v t'))"

fun kids_ok :: "(Process_t \<Rightarrow> Process_t \<Rightarrow> bool) \<Rightarrow> TreeNode \<Rightarrow> bool" where
  "kids_ok cmp Null = False"
| "kids_ok cmp (Node l x r) = (heap_ok cmp l \<and> heap_ok cmp r)"

definition shape :: "nat \<Rightarrow> TreeNode \<Rightarrow> bool" where
  "shape n t = (if n = 0 then t = Null else (\<exists>h. 2 ^ h \<le> n \<and> n < 2 ^ Suc h \<and> shp h (Suc n - 2 ^ h) t))"

definition pq_ok :: "Priority_Queue_t \<Rightarrow> bool" where
  "pq_ok q = (shape (count q) (top q) \<and> heap_ok (compare q) (top q))"


text \<open>A caller's sequence of \<^verbatim>\<open>Priority_Enqueue\<close> and \<^verbatim>\<open>Priority_Dequeue\<close> calls on one queue.\<close>

datatype pq_call = Enqueue_call Process_t | Dequeue_call

fun pq_calls :: "Priority_Queue_t \<Rightarrow> pq_call list \<Rightarrow> Priority_Queue_t option" where
  "pq_calls q [] = Some q"
| "pq_calls q (Enqueue_call p # cs) =
     (case Priority_Enqueue q p of None \<Rightarrow> None | Some q' \<Rightarrow> pq_calls q' cs)"
| "pq_calls q (Dequeue_call # cs) =
     (case Priority_Dequeue q of None \<Rightarrow> None | Some q' \<Rightarrow> pq_calls q' cs)"


text \<open>Scenario A: the single process, the FCFS simulator loaded with it, and the state
  at the head of a later loop iteration, while the process holds the CPU.\<close>

definition scenario_A :: "process_id_t \<Rightarrow> Process_t" where
  "scenario_A i = \<lparr> pid = i, cpu_burst_time = 5, io_burst_time = 0, arrival_time = 0, priority = 0,
      waiting_time = 0, turnaround_time = 0 \<rparr>"

definition scenario_A_running :: "process_id_t \<Rightarrow> time_len_t \<Rightarrow> time_len_t \<Rightarrow> time_len_t
    \<Rightarrow> Queue_t Simulator_t" where
  "scenario_A_running i c t e =
     \<lparr> num_process = 1,
       generated_processes = Priority_Init Simulator_ArrivalTime_Compare,
       terminated_processes = Priority_Init Simulator_ArrivalTime_Compare,
       flag = 1,
       cur_cpu_burst = Some ((scenario_A i) \<lparr> cpu_burst_time := c, turnaround_time := t \<rparr>),
       ready_queue = Queue_Init,
       waiting_queue = Priority_Init IO_Burst_Compare,
       elapsed_time = e, idle_time = 0, avg_waiting_time = Some 0, avg_turnaround_time = Some 0,
       max_waiting_time = 0, rand_calls = 0 \<rparr>"

definition scenario_A_terminated :: "process_id_t \<Rightarrow> Queue_t Simulator_t" where
  "scenario_A_terminated i =
     (scenario_A_running i 1 4 4)
       \<lparr> terminated_processes :=
           \<lparr> count = 1,
             top = Node Null ((scenario_A i) \<lparr> cpu_burst_time := 0, turnaround_time := 5 \<rparr>) Null,
             compare = Simulator_ArrivalTime_Compare \<rparr>,
         cur_cpu_burst := None \<rparr>"

definition scenario_A_final :: "process_id_t \<Rightarrow> Queue_t Simulator_t" where
  "scenario_A_final i =
     (scenario_A_running i 1 4 4) \<lparr> cur_cpu_burst := None, avg_turnaround_time := Some 5 \<rparr>"


text \<open>
  A workload for Preemptive SJF: process 1 (CPU burst 5) arrives at tick 0, process 2
  (CPU burst 2) at tick 1, neither needs I/O. \<open>no_rand\<close> is a \<^verbatim>\<open>rand()\<close> that always
  returns 0; no call is made in this run.
\<close>

definition no_rand :: "nat \<Rightarrow> nat" where
  "no_rand k = 0"

definition pre_P1 :: Process_t where
  "pre_P1 = \<lparr> pid = 1, cpu_burst_time = 5, io_burst_time = 0, arrival_time = 0, priority = 0,
      waiting_time = 0, turnaround_time = 0 \<rparr>"

definition pre_P2 :: Process_t where
  "pre_P2 = \<lparr> pid = 2, cpu_burst_time = 2, io_burst_time = 0, arrival_time = 1, priority = 0,
      waiting_time = 0, turnaround_time = 0 \<rparr>"

definition single :: "(Process_t \<Rightarrow> Process_t \<Rightarrow> bool) \<Rightarrow> Process_t \<Rightarrow> Priority_Queue_t" where
  "single cmp p = \<lparr> count = 1, top = Node Null p Null, compare = cmp \<rparr>"

definition pre_state :: "Priority_Queue_t \<Rightarrow> Priority_Queue_t \<Rightarrow> Priority_Queue_t \<Rightarrow> Process_t option
    \<Rightarrow> time_len_t \<Rightarrow> Priority_Queue_t Simulator_t" where
  "pre_state job ready terminated cur e =
     \<lparr> num_process = 2, generated_processes = job, terminated_processes = terminated, flag = 3,
       cur_cpu_burst = cur, ready_queue = ready, waiting_queue = Priority_Init IO_Burst_Compare,
       elapsed_time = e, idle_time = 0, avg_waiting_time = Some 0, avg_turnaround_time = Some 0,
       max_waiting_time = 0, rand_calls = 0 \<rparr>"

text \<open>The states at the head of ticks 0, 1 and 2, after the Dispatch and aging sub-steps
  of tick 1, after the preemption of tick 1, and at the end of tick 2.\<close>

definition pre_tick0 :: "Priority_Queue_t Simulator_t" where
  "pre_tick0 =
     pre_state \<lparr> count = 2, top = Node (Node Null pre_P2 Null) pre_P1 Null,
                 compare = Simulator_ArrivalTime_Compare \<rparr>
       (Priority_Init SJF_Compare) (Priority_Init Simulator_ArrivalTime_Compare) None 0"

definition pre_tick1 :: "Priority_Queue_t Simulator_t" where
  "pre_tick1 =
     pre_state (single Simulator_ArrivalTime_Compare pre_P2)
       (Priority_Init SJF_Compare) (Priority_Init Simulator_ArrivalTime_Compare)
       (Some (pre_P1 \<lparr> cpu_burst_time := 4, turnaround_time := 1 \<rparr>)) 1"

definition pre_tick1_aged :: "Priority_Queue_t Simulator_t" where
  "pre_tick1_aged =
     pre_state (Priority_Init Simulator_ArrivalTime_Compare)
       (single SJF_Compare (pre_P2 \<lparr> waiting_time := 1, turnaround_time := 1 \<rparr>))
       (Priority_Init Simulator_ArrivalTime_Compare)
       (Some (pre_P1 \<lparr> cpu_burst_time := 4, turnaround_time := 1 \<rparr>)) 1"

definition pre_tick2 :: "Priority_Queue_t Simulator_t" where
  "pre_tick2 =
     pre_state (Priority_Init Simulator_ArrivalTime_Compare)
       (single SJF_Compare (pre_P1 \<lparr> cpu_burst_time := 4, turnaround_time := 1 \<rparr>))
       (Priority_Init Simulator_ArrivalTime_Compare)
       (Some (pre_P2 \<lparr> cpu_burst_time := 1, waiting_time := 1, turnaround_time := 2 \<rparr>)) 2"

definition pre_tick2_end :: "Priority_Queue_t Simulator_t" where
  "pre_tick2_end =
     pre_state (Priority_Init Simulator_ArrivalTime_Compare)
       (single SJF_Compare (pre_P1 \<lparr> cpu_burst_time := 4, waiting_time := 1, turnaround_time := 2 \<rparr>))
       (single Simulator_ArrivalTime_Compare
          (pre_P2 \<lparr> cpu_burst_time := 0, waiting_time := 1, turnaround_time := 3 \<rparr>))
       None 2"

definition pre_tick1_preempted :: "Priority_Queue_t Simulator_t" where
  "pre_tick1_preempted =
     pre_state (Priority_Init Simulator_ArrivalTime_Compare)
       (single SJF_Compare (pre_P1 \<lparr> cpu_burst_time := 4, turnaround_time := 1 \<rparr>))
       (Priority_Init Simulator_ArrivalTime_Compare)
       (Some (pre_P2 \<lparr> waiting_time := 1, turnaround_time := 1 \<rparr>)) 1"


text \<open>A workload that ends in the first tick: one process with CPU burst 1, arriving at
  tick 0; the state handed to \<^verbatim>\<open>Simulator_Eval\<close> and the final state of the FCFS run.\<close>

definition instant_P :: "process_id_t \<Rightarrow> Process_t" where
  "instant_P i = \<lparr> pid = i, cpu_burst_time = 1, io_burst_time = 0, arrival_time = 0, priority = 0,
      waiting_time = 0, turnaround_time = 0 \<rparr>"

definition instant_final :: "process_id_t \<Rightarrow> Queue_t Simulator_t" where
  "instant_final i =
     \<lparr> num_process = 1,
       generated_processes = Priority_Init Simulator_ArrivalTime_Compare,
       terminated_processes = Priority_Init Simulator_ArrivalTime_Compare,
       flag = 1, cur_cpu_burst = None, ready_queue = Queue_Init,
       waiting_queue = Priority_Init IO_Burst_Compare,
       elapsed_time = 0, idle_time = 0, avg_waiting_time = Some 0, avg_turnaround_time = Some 1,
       max_waiting_time = 0, rand_calls = 0 \<rparr>"

definition instant_terminated :: "process_id_t \<Rightarrow> Queue_t Simulator_t" where
  "instant_terminated i =
     (instant_final i)
       \<lparr> terminated_processes :=
           single Simulator_ArrivalTime_Compare
             ((instant_P i) \<lparr> cpu_burst_time := 0, turnaround_time := 1 \<rparr>),
         avg_turnaround_time := Some 0 \<rparr>"


text \<open>
  The processes of a priority queue in the order in which \<^verbatim>\<open>Priority_Top\<close> and
  \<^verbatim>\<open>Priority_Dequeue\<close> hand them out.
\<close>

function drain :: "Priority_Queue_t \<Rightarrow> Process_t list option" where
  "drain q =
     (if count q = 0 then Some []
      else
        (case Priority_Top q of
           None \<Rightarrow> None
         | Some p \<Rightarrow>
             (case Priority_Dequeue q of
                None \<Rightarrow> None
              | Some q' \<Rightarrow> (case drain q' of None \<Rightarrow> None | Some ps \<Rightarrow> Some (p # ps)))))"
  by pat_completeness auto
termination
  by (relation "measure count")
    (auto simp: Priority_Dequeue_def split: if_splits option.splits prod.splits)

declare drain.simps [simp del]

text \<open>
  What the interrupt resolution is to do, in terms of the \<^verbatim>\<open>rand()\<close> sequence alone. A
  trial that starts after \<open>k\<close> calls of \<^verbatim>\<open>rand()\<close> reads the samples \<open>k, \<dots>, k + 99\<close> and
  fires iff at least 50 of them are odd; the \<open>i\<close>-th of \<open>n\<close> consecutive trials starts
  after \<open>k + 100 * i\<close> calls. A process, paired with the result of its trial, is moved
  to the ready queue iff the trial fired and its \<open>cpu_burst_time\<close> exceeds 1.
\<close>

definition trial_fires :: "(nat \<Rightarrow> nat) \<Rightarrow> nat \<Rightarrow> bool" where
  "trial_fires R k = (50 \<le> length (filter (\<lambda>j. R (k + j) mod 2 \<noteq> 0) [0..<100]))"

fun trials :: "(nat \<Rightarrow> nat) \<Rightarrow> nat \<Rightarrow> nat \<Rightarrow> bool list" where
  "trials R k 0 = []"
| "trials R k (Suc n) = trial_fires R k # trials R (k + 100) n"

definition interrupted :: "Process_t \<times> bool \<Rightarrow> bool" where
  "interrupted d = (snd d \<and> 1 < cpu_burst_time (fst d))"


definition odd_rand :: "nat \<Rightarrow> nat" where
  "odd_rand k = 1"

text \<open>
  A \<^verbatim>\<open>rand()\<close> whose first 100 samples are odd and all later ones even, and two
  simulators, one with a FIFO and one with an SJF ready queue, whose waiting queue holds
  two processes with CPU burst 3 left.
\<close>

definition first_rand :: "nat \<Rightarrow> nat" where
  "first_rand k = (if k < 100 then 1 else 0)"

definition io_P :: Process_t where
  "io_P = \<lparr> pid = 1, cpu_burst_time = 3, io_burst_time = 2, arrival_time = 0, priority = 0,
      waiting_time = 0, turnaround_time = 2 \<rparr>"

definition io_Q :: Process_t where
  "io_Q = \<lparr> pid = 2, cpu_burst_time = 3, io_burst_time = 4, arrival_time = 0, priority = 0,
      waiting_time = 1, turnaround_time = 3 \<rparr>"

definition io_waiting :: Priority_Queue_t where
  "io_waiting = \<lparr> count = 2, top = Node (Node Null io_Q Null) io_P Null, compare = IO_Burst_Compare \<rparr>"

definition io_example :: "Queue_t Simulator_t" where
  "io_example = (Simulator_Init_Queue 1) \<lparr> num_process := 2, waiting_queue := io_waiting \<rparr>"

definition io_example_Priority :: "Priority_Queue_t Simulator_t" where
  "io_example_Priority =
     (Simulator_Init_Priority 2 SJF_Compare) \<lparr> num_process := 2, waiting_queue := io_waiting \<rparr>"


text \<open>
  The state at the head of the \<open>n\<close>-th iteration of a \<^verbatim>\<open>while (1)\<close> scheduling loop with
  the given body, when the loop gets that far. Round Robin carries its time quantum.
\<close>

fun loop_head :: "('r Simulator_t \<Rightarrow> (bool \<times> 'r Simulator_t) option) \<Rightarrow> 'r Simulator_t \<Rightarrow> nat
    \<Rightarrow> 'r Simulator_t option" where
  "loop_head body s 0 = Some s"
| "loop_head body s (Suc n) =
     (case body s of
        None \<Rightarrow> None
      | Some (finished, s') \<Rightarrow>
          if finished then None
          else loop_head body (s' \<lparr> elapsed_time := elapsed_time s' + 1 \<rparr>) n)"

fun RoundRobin_head :: "(nat \<Rightarrow> nat) \<Rightarrow> Queue_t Simulator_t \<Rightarrow> int \<Rightarrow> nat
    \<Rightarrow> (Queue_t Simulator_t \<times> int) option" where
  "RoundRobin_head R s tq 0 = Some (s, tq)"
| "RoundRobin_head R s tq (Suc n) =
     (case RoundRobin_body R s tq of
        None \<Rightarrow> None
      | Some (finished, s', tq') \<Rightarrow>
          if finished then None
          else RoundRobin_head R (s' \<lparr> elapsed_time := elapsed_time s' + 1 \<rparr>) tq' n)"

text \<open>What the loops maintain: every priority queue is a complete tree in heap order
  under its comparator, and the count of the FIFO queue is the length of its list.\<close>

definition queues_ok :: "'r Simulator_t \<Rightarrow> bool" where
  "queues_ok s =
     (pq_ok (generated_processes s) \<and> compare (generated_processes s) = Simulator_ArrivalTime_Compare
      \<and> pq_ok (terminated_processes s) \<and> compare (terminated_processes s) = Simulator_ArrivalTime_Compare
      \<and> pq_ok (waiting_queue s) \<and> compare (waiting_queue s) = IO_Burst_Compare)"

definition Queue_ok :: "Queue_t Simulator_t \<Rightarrow> bool" where
  "Queue_ok s = (queues_ok s \<and> q_count (ready_queue s) = length (front (ready_queue s)))"

definition Priority_ok :: "Priority_Queue_t Simulator_t \<Rightarrow> bool" where
  "Priority_ok s =
     (queues_ok s \<and> pq_ok (ready_queue s)
      \<and> (compare (ready_queue s) = SJF_Compare \<or> compare (ready_queue s) = Priority_Compare))"


text \<open>
  An FCFS workload of one process with I/O, under \<open>odd_rand\<close>, whose trials always fire:
  in tick 0 the process runs and requests I/O, so at the head of tick 1 it is in the
  waiting queue.
\<close>

definition wio_P :: Process_t where
  "wio_P = \<lparr> pid = 1, cpu_burst_time = 3, io_burst_time = 2, arrival_time = 0, priority = 0,
      waiting_time = 0, turnaround_time = 0 \<rparr>"

definition wio_tick1 :: "Queue_t Simulator_t" where
  "wio_tick1 =
     (Simulator_Init_Queue 1)
       \<lparr> num_process := 1,
         waiting_queue := single IO_Burst_Compare (wio_P \<lparr> cpu_burst_time := 2, turnaround_time := 1 \<rparr>),
         elapsed_time := 1, rand_calls := 100 \<rparr>"

text \<open>
  An FCFS workload of two processes with CPU burst 2 and I/O, under \<open>no_rand\<close>, whose
  trials never fire: process 1 runs in tick 0 and process 2 in tick 1, each requests I/O
  with one CPU tick left, so at the head of tick 2 both are in the waiting queue.
\<close>

definition two_P1 :: Process_t where
  "two_P1 = \<lparr> pid = 1, cpu_burst_time = 2, io_burst_time = 5, arrival_time = 0, priority = 0,
      waiting_time = 0, turnaround_time = 0 \<rparr>"

definition two_P2 :: Process_t where
  "two_P2 = \<lparr> pid = 2, cpu_burst_time = 2, io_burst_time = 3, arrival_time = 0, priority = 0,
      waiting_time = 0, turnaround_time = 0 \<rparr>"

definition two_tick2 :: "Queue_t Simulator_t" where
  "two_tick2 =
     (Simulator_Init_Queue 1)
       \<lparr> num_process := 2,
         waiting_queue :=
           \<lparr> count = 2,
             top = Node (Node Null (two_P1 \<lparr> cpu_burst_time := 1, io_burst_time := 4,
                                            turnaround_time := 2 \<rparr>) Null)
                        (two_P2 \<lparr> cpu_burst_time := 1, waiting_time := 1, turnaround_time := 2 \<rparr>)
                        Null,
             compare = IO_Burst_Compare \<rparr>,
         elapsed_time := 2, rand_calls := 100 \<rparr>"

section \<open>The priority queue keeps its shape and its order\<close>

lemma swo_SJF: "swo SJF_Compare"
  unfolding swo_def SJF_Compare_def by (auto split: if_splits)

lemma swo_Priority: "swo Priority_Compare"
  unfolding swo_def Priority_Compare_def by (auto split: if_splits)

lemma swo_IO: "swo IO_Burst_Compare"
  unfolding swo_def IO_Burst_Compare_def by (auto split: if_splits)

lemma swo_Arrival: "swo Simulator_ArrivalTime_Compare"
  unfolding swo_def Simulator_ArrivalTime_Compare_def by (auto split: if_splits)

lemma shp_full_up: "shp h (2 ^ h) t \<Longrightarrow> shp (Suc h) 0 t"
  by (induction h "2 ^ h :: nat" t rule: shp.induct) auto

lemma shp_0_0 [simp]: "shp 0 0 t = (t = Null)"
  by (cases t) auto

lemma shp_full_down: "shp (Suc h) 0 t \<Longrightarrow> shp h (2 ^ h) t"
proof (induction h arbitrary: t)
  case 0
  then show ?case by (cases t) auto
next
  case (Suc h)
  then show ?case by (cases t) auto
qed

lemma find_pos_pow: "2 ^ k \<le> n \<Longrightarrow> n < 2 ^ Suc h \<Longrightarrow> k \<le> h \<Longrightarrow> 0 < k \<Longrightarrow>
   \<exists>H. find_pos (2 ^ k) n = Some (2 ^ H) \<and> 2 ^ H \<le> n \<and> n < 2 ^ Suc H \<and> 0 < H"
proof (induction "h - k" arbitrary: k)
  case 0
  then have "k = h" by simp
  then have "find_pos (2 ^ k) n = Some (2 ^ k)"
    using 0 find_pos.simps[of "2 ^ k" n] by (simp add: push_bit_eq_mult)
  then show ?case using 0 \<open>k = h\<close> by blast
next
  case (Suc d)
  show ?case
  proof (cases "n < 2 ^ Suc k")
    case True
    then have "find_pos (2 ^ k) n = Some (2 ^ k)"
      using Suc.prems find_pos.simps[of "2 ^ k" n] by (simp add: push_bit_eq_mult)
    then show ?thesis using Suc.prems True by blast
  next
    case False
    then have "2 ^ Suc k \<le> n" by simp
    moreover have "d = h - Suc k" using Suc.hyps by simp
    moreover have "Suc k \<le> h" using Suc.hyps by simp
    ultimately obtain H where H: "find_pos (2 ^ Suc k) n = Some (2 ^ H)" "2 ^ H \<le> n" "n < 2 ^ Suc H" "0 < H"
      using Suc.hyps(1)[of "Suc k"] Suc.prems by blast
    have "find_pos (2 ^ k) n = find_pos (2 ^ Suc k) n"
      using False Suc.prems(1) find_pos.simps[of "2 ^ k" n] by (simp add: push_bit_eq_mult mult.commute)
    then show ?thesis using H by auto
  qed
qed

lemma bit_split:
  fixes n :: nat
  assumes "n mod 2 ^ Suc h = c"
  shows "(2 ^ h AND n \<noteq> 0) = (2 ^ h \<le> c)" "(n AND 2 ^ h \<noteq> 0) = (2 ^ h \<le> c)"
    "n mod 2 ^ h = (if 2 ^ h \<le> c then c - 2 ^ h else c)"
proof -
  have c: "c = 2 ^ h * (n div 2 ^ h mod 2) + n mod 2 ^ h"
    using assms mod_mult2_eq [of n "2 ^ h" 2] by (simp add: mult.commute)
  have lt: "n mod 2 ^ h < 2 ^ h" by simp
  have b: "(n AND 2 ^ h \<noteq> 0) = odd (n div 2 ^ h)"
    by (simp add: and_exp_eq_0_iff_not_bit bit_iff_odd)
  show 2: "(n AND 2 ^ h \<noteq> 0) = (2 ^ h \<le> c)"
  proof (cases "odd (n div 2 ^ h)")
    case True
    then have "n div 2 ^ h mod 2 = 1" by (simp add: odd_iff_mod_2_eq_one)
    with c b True show ?thesis by simp
  next
    case False
    then have "n div 2 ^ h mod 2 = 0" by simp
    with c have "c = n mod 2 ^ h" by simp
    then have "c < 2 ^ h" by simp
    then show ?thesis using b False by simp
  qed
  then show "(2 ^ h AND n \<noteq> 0) = (2 ^ h \<le> c)" by (simp add: and.commute)
  show "n mod 2 ^ h = (if 2 ^ h \<le> c then c - 2 ^ h else c)"
  proof (cases "odd (n div 2 ^ h)")
    case True
    then have "n div 2 ^ h mod 2 = 1" by (simp add: odd_iff_mod_2_eq_one)
    with c show ?thesis by simp
  next
    case False
    then have "n div 2 ^ h mod 2 = 0" by simp
    with c have e: "c = n mod 2 ^ h" by simp
    then have "\<not> 2 ^ h \<le> c" by (simp add: not_le)
    then show ?thesis using e by (simp del: mod_less_divisor)
  qed
qed

lemma swoD:
  assumes "swo cmp"
  shows "\<not> cmp a a" "cmp a b \<Longrightarrow> cmp b c \<Longrightarrow> cmp a c" "\<not> cmp a b \<Longrightarrow> \<not> cmp b c \<Longrightarrow> \<not> cmp a c"
    "cmp a b \<Longrightarrow> \<not> cmp b a"
  using assms unfolding swo_def by blast+

lemma le_root_trans: "swo cmp \<Longrightarrow> \<not> cmp x v \<Longrightarrow> le_root cmp x t \<Longrightarrow> le_root cmp v t"
  by (cases t) (auto dest: swoD(3))

lemma up_left_ok:
  assumes "swo cmp" "heap_ok cmp (Node l x r)" "heap_ok cmp l'" "l' \<noteq> Null"
    "up \<longrightarrow> root l' = Some p" "\<not> up \<longrightarrow> root l' = root l"
    "\<forall>v. le_root cmp v l \<longrightarrow> children_ge cmp v l'"
    "up_left cmp l' x r up = (t', up')"
  shows "heap_ok cmp t' \<and> (up' \<longrightarrow> root t' = Some p) \<and> (\<not> up' \<longrightarrow> root t' = Some x)
     \<and> (\<forall>v. le_root cmp v (Node l x r) \<longrightarrow> children_ge cmp v t')"
proof -
  obtain a y b where l': "l' = Node a y b" using assms(4) by (cases l') auto
  have lx: "le_root cmp x l" "le_root cmp x r" using assms(2) by auto
  show ?thesis
  proof (cases "up \<and> cmp y x")
    case True
    then have t': "t' = Node (Node a x b) y r" "up'" using assms(8) l' by auto
    have "children_ge cmp x l'" using assms(7) lx by blast
    moreover have "\<not> cmp x y" using True swoD(4)[OF assms(1)] by blast
    moreover have "le_root cmp y r" using lx(2) \<open>\<not> cmp x y\<close> le_root_trans[OF assms(1)] by blast
    moreover have "y = p" using True assms(5) l' by simp
    ultimately show ?thesis using t' assms(2,3) l' lx le_root_trans[OF assms(1)]
      by auto
  next
    case False
    then have t': "t' = Node l' x r" "\<not> up'" using assms(8) l' by auto
    have "le_root cmp x l'"
    proof (cases up)
      case True
      with False show ?thesis using l' by simp
    next
      case False
      then have "root l' = root l" using assms(6) by simp
      then show ?thesis using lx(1) l' by (cases l) auto
    qed
    then show ?thesis using t' assms(2,3) le_root_trans[OF assms(1)] by auto
  qed
qed

lemma up_right_ok:
  assumes "swo cmp" "heap_ok cmp (Node l x r)" "heap_ok cmp r'" "r' \<noteq> Null"
    "up \<longrightarrow> root r' = Some p" "\<not> up \<longrightarrow> root r' = root r"
    "\<forall>v. le_root cmp v r \<longrightarrow> children_ge cmp v r'"
    "up_right cmp l x r' up = (t', up')"
  shows "heap_ok cmp t' \<and> (up' \<longrightarrow> root t' = Some p) \<and> (\<not> up' \<longrightarrow> root t' = Some x)
     \<and> (\<forall>v. le_root cmp v (Node l x r) \<longrightarrow> children_ge cmp v t')"
proof -
  obtain a y b where r': "r' = Node a y b" using assms(4) by (cases r') auto
  have lx: "le_root cmp x l" "le_root cmp x r" using assms(2) by auto
  show ?thesis
  proof (cases "up \<and> cmp y x")
    case True
    then have t': "t' = Node l y (Node a x b)" "up'" using assms(8) r' by auto
    have "children_ge cmp x r'" using assms(7) lx by blast
    moreover have "\<not> cmp x y" using True swoD(4)[OF assms(1)] by blast
    moreover have "le_root cmp y l" using lx(1) \<open>\<not> cmp x y\<close> le_root_trans[OF assms(1)] by blast
    moreover have "y = p" using True assms(5) r' by simp
    ultimately show ?thesis using t' assms(2,3) r' lx le_root_trans[OF assms(1)]
      by auto
  next
    case False
    then have t': "t' = Node l x r'" "\<not> up'" using assms(8) r' by auto
    have "le_root cmp x r'"
    proof (cases up)
      case True
      with False show ?thesis using r' by simp
    next
      case False
      then have "root r' = root r" using assms(6) by simp
      then show ?thesis using lx(2) r' by (cases r) auto
    qed
    then show ?thesis using t' assms(2,3) le_root_trans[OF assms(1)] by auto
  qed
qed

lemma shp_payload: "shp h c (Node a x b) = shp h c (Node a y b)"
  by (cases h) auto

lemma up_left_shape:
  assumes "up_left cmp l' x r up = (t', up')" "l' \<noteq> Null"
  shows "shp h c t' = shp h c (Node l' x r)" "procs t' = procs l' + {#x#} + procs r" "t' \<noteq> Null"
proof -
  obtain a y b where l': "l' = Node a y b" using assms(2) by (cases l') auto
  show "shp h c t' = shp h c (Node l' x r)" using assms(1) l' shp_payload [of _ _ a x b y]
    by (cases h) (auto split: if_splits)
  show "procs t' = procs l' + {#x#} + procs r" using assms(1) l' by (auto split: if_splits)
  show "t' \<noteq> Null" using assms(1) l' by (auto split: if_splits)
qed

lemma up_right_shape:
  assumes "up_right cmp l x r' up = (t', up')" "r' \<noteq> Null"
  shows "shp h c t' = shp h c (Node l x r')" "procs t' = procs l + {#x#} + procs r'" "t' \<noteq> Null"
proof -
  obtain a y b where r': "r' = Node a y b" using assms(2) by (cases r') auto
  show "shp h c t' = shp h c (Node l x r')" using assms(1) r' shp_payload [of _ _ a x b y]
    by (cases h) (auto split: if_splits)
  show "procs t' = procs l + {#x#} + procs r'" using assms(1) r' by (auto split: if_splits)
  show "t' \<noteq> Null" using assms(1) r' by (auto split: if_splits)
qed

lemma enqueue_walk_ok:
  assumes swo: "swo cmp"
  shows "shp (Suc h) c t \<Longrightarrow> c < 2 ^ Suc h \<Longrightarrow> n mod 2 ^ Suc h = c \<Longrightarrow> heap_ok cmp t \<Longrightarrow>
    \<exists>t' up. enqueue_walk cmp (2 ^ h) n p t = Some (t', up) \<and> shp (Suc h) (Suc c) t' \<and> walk_post cmp p t t' up"
proof (induction h arbitrary: t c)
  case 0
  then obtain l x r where t: "t = Node l x r" by (cases t) auto
  have bit: "(1 AND n \<noteq> 0) = (1 \<le> c)" using bit_split(1)[of n 0 c] 0 by simp
  show ?case
  proof (cases "c = 0")
    case True
    then have lr: "l = Null" "r = Null" using 0 t by auto
    obtain t' up' where u: "up_left cmp (Node Null p Null) x r True = (t', up')" by fastforce
    have "enqueue_walk cmp (2 ^ 0) n p t = Some (t', up')" using t bit True u by simp
    moreover have "shp (Suc 0) (Suc c) t'" using up_left_shape(1)[OF u] True lr by simp
    moreover have "walk_post cmp p t t' up'"
      using up_left_ok[OF swo _ _ _ _ _ _ u, of l p] up_left_shape(2,3)[OF u] 0 t lr
      by (auto simp: walk_post_def)
    ultimately show ?thesis by blast
  next
    case False
    then have c1: "c = 1" using 0 by simp
    then have r: "r = Null" using 0 t by auto
    obtain t' up' where u: "up_right cmp l x (Node Null p Null) True = (t', up')" by fastforce
    have "enqueue_walk cmp (2 ^ 0) n p t = Some (t', up')" using t bit c1 u by simp
    moreover have "shp (Suc 0) (Suc c) t'" using up_right_shape(1)[OF u] c1 r 0 t by simp
    moreover have "walk_post cmp p t t' up'"
      using up_right_ok[OF swo _ _ _ _ _ _ u, of r p] up_right_shape(2,3)[OF u] 0 t r
      by (auto simp: walk_post_def)
    ultimately show ?thesis by blast
  qed
next
  case (Suc h)
  then obtain l x r where t: "t = Node l x r" by (cases t) auto
  have bit: "(2 ^ Suc h AND n \<noteq> 0) = (2 ^ Suc h \<le> c)"
    and md: "n mod 2 ^ Suc h = (if 2 ^ Suc h \<le> c then c - 2 ^ Suc h else c)"
    using bit_split(1,3)[of n "Suc h" c] Suc.prems by auto
  have pos: "(2::nat) \<le> 2 ^ Suc h" by simp
  have db: "drop_bit 1 ((2::nat) ^ Suc h) = 2 ^ h" by (simp add: drop_bit_eq_div)
  have sl: "shp (Suc h) (min c (2 ^ Suc h)) l" and sr: "shp (Suc h) (c - 2 ^ Suc h) r"
    using Suc.prems t by auto
  have hl: "heap_ok cmp l" and hr: "heap_ok cmp r" using Suc.prems t by auto
  show ?case
  proof (cases "2 ^ Suc h \<le> c")
    case True
    have "c - 2 ^ Suc h < 2 ^ Suc h" using Suc.prems(2) by simp
    then obtain r' up where w: "enqueue_walk cmp (2 ^ h) n p r = Some (r', up)"
      and s': "shp (Suc h) (Suc (c - 2 ^ Suc h)) r'" and wp: "walk_post cmp p r r' up"
      using Suc.IH[OF sr _ _ hr] md True by auto
    obtain t' up' where u: "up_right cmp l x r' up = (t', up')" by fastforce
    have rn: "r' \<noteq> Null" using wp by (simp add: walk_post_def)
    have "enqueue_walk cmp (2 ^ Suc h) n p t = Some (t', up')"
      using t bit True w u pos db by (simp del: power_Suc)
    moreover have "min c (2 ^ Suc h) = (2::nat) ^ Suc h" using True by (rule min_absorb2)
    then have "shp (Suc h) (2 ^ Suc h) l" using sl by metis
    then have "shp (Suc (Suc h)) (Suc c) t'"
      using up_right_shape(1)[OF u rn] s' True Suc.prems(2) by (auto simp: min_def Suc_diff_le)
    moreover have "walk_post cmp p t t' up'"
      using up_right_ok[OF swo _ _ rn _ _ _ u, of r p] up_right_shape(2,3)[OF u rn] wp Suc.prems(4) t
      by (auto simp: walk_post_def)
    ultimately show ?thesis by blast
  next
    case False
    then have lt: "c < 2 ^ Suc h" by simp
    then have sl': "shp (Suc h) c l" using sl by (simp add: min_def)
    obtain l' up where w: "enqueue_walk cmp (2 ^ h) n p l = Some (l', up)"
      and s': "shp (Suc h) (Suc c) l'" and wp: "walk_post cmp p l l' up"
      using Suc.IH[OF sl' lt _ hl] md False by auto
    obtain t' up' where u: "up_left cmp l' x r up = (t', up')" by fastforce
    have ln: "l' \<noteq> Null" using wp by (simp add: walk_post_def)
    have "enqueue_walk cmp (2 ^ Suc h) n p t = Some (t', up')"
      using t bit False w u pos db by (simp del: power_Suc)
    moreover have "shp (Suc (Suc h)) (Suc c) t'"
      using up_left_shape(1)[OF u ln] s' sr lt by (auto simp: min_def)
    moreover have "walk_post cmp p t t' up'"
      using up_left_ok[OF swo _ _ ln _ _ _ u, of l p] up_left_shape(2,3)[OF u ln] wp Suc.prems(4) t
      by (auto simp: walk_post_def)
    ultimately show ?thesis by blast
  qed
qed

lemma dequeue_walk_ok:
  "shp (Suc h) (Suc c) t \<Longrightarrow> c < 2 ^ Suc h \<Longrightarrow> n mod 2 ^ Suc h = c \<Longrightarrow> heap_ok cmp t \<Longrightarrow>
    \<exists>t' p. dequeue_walk (2 ^ h) n t = Some (t', p) \<and> shp (Suc h) c t' \<and> heap_ok cmp t'
      \<and> procs t = procs t' + {#p#} \<and> root t' = root t \<and> t' \<noteq> Null"
proof (induction h arbitrary: t c)
  case 0
  then obtain l x r where t: "t = Node l x r" by (cases t) auto
  have bit: "(1 AND n \<noteq> 0) = (1 \<le> c)" using bit_split(1)[of n 0 c] 0 by simp
  show ?case
  proof (cases "c = 0")
    case True
    then show ?thesis using 0 t bit by (cases l) auto
  next
    case False
    then have c1: "c = 1" using 0 by simp
    then show ?thesis using 0 t bit by (cases r; cases l) auto
  qed
next
  case (Suc h)
  then obtain l x r where t: "t = Node l x r" by (cases t) auto
  have bit: "(n AND 2 ^ Suc h \<noteq> 0) = (2 ^ Suc h \<le> c)"
    and md: "n mod 2 ^ Suc h = (if 2 ^ Suc h \<le> c then c - 2 ^ Suc h else c)"
    using bit_split(2,3)[of n "Suc h" c] Suc.prems by auto
  have pos: "(2::nat) \<le> 2 ^ Suc h" by simp
  have db: "drop_bit 1 ((2::nat) ^ Suc h) = 2 ^ h" by (simp add: drop_bit_eq_div)
  have sl: "shp (Suc h) (min (Suc c) (2 ^ Suc h)) l" and sr: "shp (Suc h) (Suc c - 2 ^ Suc h) r"
    using Suc.prems t by auto
  have hl: "heap_ok cmp l" and hr: "heap_ok cmp r" and lx: "le_root cmp x l" "le_root cmp x r"
    using Suc.prems t by auto
  show ?case
  proof (cases "2 ^ Suc h \<le> c")
    case True
    have m: "min (Suc c) (2 ^ Suc h) = (2::nat) ^ Suc h" "min c (2 ^ Suc h) = (2::nat) ^ Suc h"
      using True by auto
    have sl': "shp (Suc h) (min c (2 ^ Suc h)) l" using sl m by metis
    have "Suc c - 2 ^ Suc h = Suc (c - 2 ^ Suc h)" using True by (rule Suc_diff_le)
    then have sr': "shp (Suc h) (Suc (c - 2 ^ Suc h)) r" using sr by metis
    have "c - 2 ^ Suc h < 2 ^ Suc h" using Suc.prems(2) by simp
    then obtain r' p where w: "dequeue_walk (2 ^ h) n r = Some (r', p)"
      and s': "shp (Suc h) (c - 2 ^ Suc h) r'" and h': "heap_ok cmp r'"
      and pr: "procs r = procs r' + {#p#}" and rt: "root r' = root r" "r' \<noteq> Null"
      using Suc.IH[OF sr' _ _ hr] md True by auto
    have "le_root cmp x r'" using rt lx(2) by (cases r; cases r') auto
    moreover have "dequeue_walk (2 ^ Suc h) n t = Some (Node l x r', p)"
      using t bit True w pos db by (simp del: power_Suc)
    moreover have "shp (Suc (Suc h)) c (Node l x r')"
      using s' sl' Suc.prems(2) by simp
    ultimately show ?thesis using h' hl lx pr t by auto
  next
    case False
    then have lt: "c < 2 ^ Suc h" by simp
    then have m: "min (Suc c) (2 ^ Suc h) = Suc c" "min c (2 ^ Suc h) = c" "Suc c - 2 ^ Suc h = 0" "c - 2 ^ Suc h = 0"
      by auto
    have sl': "shp (Suc h) (Suc c) l" using sl m by metis
    have sr': "shp (Suc h) (c - 2 ^ Suc h) r" using sr m by metis
    obtain l' p where w: "dequeue_walk (2 ^ h) n l = Some (l', p)"
      and s': "shp (Suc h) c l'" and h': "heap_ok cmp l'"
      and pr: "procs l = procs l' + {#p#}" and rt: "root l' = root l" "l' \<noteq> Null"
      using Suc.IH[OF sl' lt _ hl] md False by auto
    have "le_root cmp x l'" using rt lx(1) by (cases l; cases l') auto
    moreover have "dequeue_walk (2 ^ Suc h) n t = Some (Node l' x r, p)"
      using t bit False w pos db by (simp del: power_Suc)
    moreover have "shp (Suc (Suc h)) c (Node l' x r)"
      using s' sr' m lt by simp
    ultimately show ?thesis using h' hr lx pr t by auto
  qed
qed

lemma shp_Null [simp]: "shp h c Null = (h = 0 \<and> c = 0)"
  by (cases h) auto

lemma shp_no_left_gap: "\<not> shp h c (Node Null x (Node a y b))"
  by (cases h) (auto simp: min_def split: if_splits)

lemma heap_down_ok:
  "swo cmp \<Longrightarrow> shp h c t \<Longrightarrow> kids_ok cmp t \<Longrightarrow>
    \<exists>t'. heap_down cmp t = Some t' \<and> shp h c t' \<and> heap_ok cmp t' \<and> procs t' = procs t
      \<and> (\<forall>v. le_root cmp v t \<and> children_ge cmp v t \<longrightarrow> le_root cmp v t')"
proof (induction cmp t arbitrary: h c rule: heap_down.induct)
  case (1 cmp)
  then show ?case by simp
next
  case (2 cmp x)
  then show ?case by simp
next
  case (3 cmp a y b x)
  note swo = \<open>swo cmp\<close>
  show ?case
  proof (cases "cmp y x")
    case True
    obtain h' where h: "h = Suc h'" using "3.prems"(2) by (cases h) auto
    have sh: "c \<le> 2 ^ Suc h'" "shp h' (min c (2 ^ h')) (Node a y b)" "shp h' (c - 2 ^ h') Null"
      using "3.prems"(2)[unfolded h shp.simps(4)] by blast+
    have s: "shp h' (min c (2 ^ h')) (Node a x b)" using sh(2) shp_payload by blast
    have k: "kids_ok cmp (Node a x b)" using "3.prems"(3) by simp
    obtain l' where d: "heap_down cmp (Node a x b) = Some l'" and s': "shp h' (min c (2 ^ h')) l'"
      and ok: "heap_ok cmp l'" and pr: "procs l' = procs (Node a x b)"
      and le: "\<forall>v. le_root cmp v (Node a x b) \<and> children_ge cmp v (Node a x b) \<longrightarrow> le_root cmp v l'"
      using "3.IH"[OF True swo s k] by blast
    have "\<not> cmp x y" using True swoD(4)[OF swo] by blast
    moreover have "le_root cmp y a" "le_root cmp y b" using "3.prems"(3) by auto
    ultimately have ly: "le_root cmp y l'" using le by simp
    have 1: "heap_down cmp (Node (Node a y b) x Null) = Some (Node l' y Null)" using True d by simp
    have 2: "shp h c (Node l' y Null)" unfolding h shp.simps(4) using sh s' by blast
    have 3: "heap_ok cmp (Node l' y Null)" using ly ok by simp
    have 4: "procs (Node l' y Null) = procs (Node (Node a y b) x Null)" using pr by simp
    have 5: "\<forall>v. le_root cmp v (Node (Node a y b) x Null) \<and> children_ge cmp v (Node (Node a y b) x Null)
       \<longrightarrow> le_root cmp v (Node l' y Null)" by simp
    show ?thesis using 1 2 3 4 5 by blast
  next
    case False
    have 1: "heap_down cmp (Node (Node a y b) x Null) = Some (Node (Node a y b) x Null)" using False by simp
    have 3: "heap_ok cmp (Node (Node a y b) x Null)" using False "3.prems"(3) by simp
    show ?thesis using 1 3 "3.prems"(2) by blast
  qed
next
  case (4 cmp x c z d)
  then show ?case using shp_no_left_gap by blast
next
  case (5 cmp a y b x c' z d)
  note swo = \<open>swo cmp\<close>
  obtain h' where h: "h = Suc h'" using "5.prems"(2) by (cases h) auto
  have sh: "c \<le> 2 ^ Suc h'" "shp h' (min c (2 ^ h')) (Node a y b)" "shp h' (c - 2 ^ h') (Node c' z d)"
    using "5.prems"(2)[unfolded h shp.simps(4)] by blast+
  have hk: "heap_ok cmp (Node a y b)" "heap_ok cmp (Node c' z d)" using "5.prems"(3) by auto
  let ?t = "Node (Node a y b) x (Node c' z d)"
  show ?case
  proof (cases "cmp y z")
    case yz: True
    show ?thesis
    proof (cases "cmp y x")
      case True
      have s: "shp h' (min c (2 ^ h')) (Node a x b)" using sh(2) shp_payload by blast
      have k: "kids_ok cmp (Node a x b)" using hk by simp
      obtain l' where d: "heap_down cmp (Node a x b) = Some l'" and s': "shp h' (min c (2 ^ h')) l'"
        and ok: "heap_ok cmp l'" and pr: "procs l' = procs (Node a x b)"
        and le: "\<forall>v. le_root cmp v (Node a x b) \<and> children_ge cmp v (Node a x b) \<longrightarrow> le_root cmp v l'"
        using "5.IH"(1)[OF yz True swo s k] by blast
      have "\<not> cmp x y" using True swoD(4)[OF swo] by blast
      moreover have "le_root cmp y a" "le_root cmp y b" using hk by auto
      ultimately have ly: "le_root cmp y l'" using le by simp
      have zy: "\<not> cmp z y" using yz swoD(4)[OF swo] by blast
      have 1: "heap_down cmp ?t = Some (Node l' y (Node c' z d))" using yz True d by simp
      have 2: "shp h c (Node l' y (Node c' z d))" unfolding h shp.simps(4) using sh s' by blast
      have 3: "heap_ok cmp (Node l' y (Node c' z d))" using ly ok zy hk by simp
      have 4: "procs (Node l' y (Node c' z d)) = procs ?t" using pr by simp
      have 5: "\<forall>v. le_root cmp v ?t \<and> children_ge cmp v ?t \<longrightarrow> le_root cmp v (Node l' y (Node c' z d))"
        by simp
      show ?thesis using 1 2 3 4 5 by blast
    next
      case False
      have "\<not> cmp z x" using yz False swoD(2)[OF swo] by blast
      then have 3: "heap_ok cmp ?t" using False hk by simp
      have 1: "heap_down cmp ?t = Some ?t" using yz False by simp
      show ?thesis using 1 3 "5.prems"(2) by blast
    qed
  next
    case yz: False
    show ?thesis
    proof (cases "cmp z x")
      case True
      have s: "shp h' (c - 2 ^ h') (Node c' x d)" using sh(3) shp_payload by blast
      have k: "kids_ok cmp (Node c' x d)" using hk by simp
      obtain r' where d: "heap_down cmp (Node c' x d) = Some r'" and s': "shp h' (c - 2 ^ h') r'"
        and ok: "heap_ok cmp r'" and pr: "procs r' = procs (Node c' x d)"
        and le: "\<forall>v. le_root cmp v (Node c' x d) \<and> children_ge cmp v (Node c' x d) \<longrightarrow> le_root cmp v r'"
        using "5.IH"(2)[OF yz True swo s k] by blast
      have "\<not> cmp x z" using True swoD(4)[OF swo] by blast
      moreover have "le_root cmp z c'" "le_root cmp z d" using hk by auto
      ultimately have lz: "le_root cmp z r'" using le by simp
      have 1: "heap_down cmp ?t = Some (Node (Node a y b) z r')" using yz True d by simp
      have 2: "shp h c (Node (Node a y b) z r')" unfolding h shp.simps(4) using sh s' by blast
      have 3: "heap_ok cmp (Node (Node a y b) z r')" using lz ok yz hk by simp
      have 4: "procs (Node (Node a y b) z r') = procs ?t" using pr by simp
      have 5: "\<forall>v. le_root cmp v ?t \<and> children_ge cmp v ?t \<longrightarrow> le_root cmp v (Node (Node a y b) z r')"
        by simp
      show ?thesis using 1 2 3 4 5 by blast
    next
      case False
      have "\<not> cmp y x" using yz False swoD(3)[OF swo] by blast
      then have 3: "heap_ok cmp ?t" using False hk by simp
      have 1: "heap_down cmp ?t = Some ?t" using yz False by simp
      show ?thesis using 1 3 "5.prems"(2) by blast
    qed
  qed
qed

lemma pow2_between: "(2::nat) ^ a \<le> n \<Longrightarrow> n < 2 ^ Suc b \<Longrightarrow> a \<le> b"
proof -
  assume "(2::nat) ^ a \<le> n" "n < 2 ^ Suc b"
  then have "(2::nat) ^ a < 2 ^ Suc b" by (rule le_less_trans)
  then have "a < Suc b" by (rule power_less_imp_less_exp[rotated]) simp
  then show ?thesis by simp
qed

lemma find_pos_shape:
  assumes "2 ^ h \<le> n" "n < 2 ^ Suc h" "2 \<le> n"
  shows "find_pos 2 n = Some (2 ^ h) \<and> 0 < h"
proof -
  have "0 < h" using assms by (cases h) auto
  then obtain H where H: "find_pos (2 ^ 1) n = Some (2 ^ H)" "2 ^ H \<le> n" "n < 2 ^ Suc H" "0 < H"
    using find_pos_pow[of 1 n h] assms by auto
  have "H \<le> h" "h \<le> H" using pow2_between H assms by blast+
  then show ?thesis using H by simp
qed


lemma Priority_Enqueue_ok:
  assumes swo: "swo (compare q)" and ok: "pq_ok q"
  shows "\<exists>q'. Priority_Enqueue q p = Some q' \<and> pq_ok q' \<and> count q' = Suc (count q)
     \<and> compare q' = compare q \<and> procs (top q') = procs (top q) + {#p#}"
proof (cases "count q = 0")
  case True
  then have "top q = Null" using ok by (simp add: pq_ok_def shape_def)
  moreover have "shape 1 (Node Null p Null)" unfolding shape_def by (auto intro!: exI[of _ 0])
  ultimately show ?thesis using True by (simp add: Priority_Enqueue_def pq_ok_def)
next
  case False
  define m where "m = count q"
  define n where "n = Suc m"
  obtain h where h: "2 ^ h \<le> m" "m < 2 ^ Suc h" "shp h (Suc m - 2 ^ h) (top q)"
    using ok False unfolding pq_ok_def shape_def m_def by auto
  have hp: "heap_ok (compare q) (top q)" using ok by (simp add: pq_ok_def)
  have n2: "2 \<le> n" using False by (simp add: n_def m_def)
  obtain H where H: "2 ^ H \<le> n" "n < 2 ^ Suc H" "shp H (n - 2 ^ H) (top q)"
  proof (cases "n < 2 ^ Suc h")
    case True
    then show ?thesis using h that[of h] by (simp add: n_def)
  next
    case False
    then have e: "n = 2 ^ Suc h" using h by (simp add: n_def)
    then have "Suc m - 2 ^ h = 2 ^ h" by (simp add: n_def)
    then have "shp (Suc h) 0 (top q)" using h(3) shp_full_up by simp
    then show ?thesis using e that[of "Suc h"] by simp
  qed
  have fp: "find_pos 2 n = Some (2 ^ H)" "0 < H" using find_pos_shape[OF H(1,2) n2] by auto
  then obtain H' where H': "H = Suc H'" by (cases H) auto
  have db: "drop_bit 1 ((2::nat) ^ H) = 2 ^ H'" using H' by (simp add: drop_bit_eq_div)
  have c: "n - 2 ^ H < 2 ^ Suc H'" using H H' by simp
  have md: "n mod 2 ^ Suc H' = n - 2 ^ H" using H H' by (simp add: mod_if)
  obtain t' up where w: "enqueue_walk (compare q) (2 ^ H') n p (top q) = Some (t', up)"
    and s': "shp (Suc H') (Suc (n - 2 ^ H)) t'" and wp: "walk_post (compare q) p (top q) t' up"
    using enqueue_walk_ok[OF swo _ c md hp, of p] H(3) H' by blast
  have eq: "Suc (n - 2 ^ H) = Suc n - 2 ^ H" using H(1) by simp
  have sh: "shp H (Suc n - 2 ^ H) t'" using s' eq unfolding H' by metis
  have "\<exists>h. 2 ^ h \<le> n \<and> n < 2 ^ Suc h \<and> shp h (Suc n - 2 ^ h) t'" using H(1,2) sh by blast
  moreover have "n \<noteq> 0" using n2 by simp
  ultimately have "shape n t'" unfolding shape_def by presburger
  then have "shape (Suc m) t'" by (simp add: n_def)
  moreover have "Priority_Enqueue q p = Some (q \<lparr> count := Suc m, top := t' \<rparr>)"
    using False fp(1) w db by (simp add: Priority_Enqueue_def m_def n_def)
  ultimately show ?thesis using wp by (simp add: pq_ok_def walk_post_def m_def)
qed

lemma set_process_shape: "t \<noteq> Null \<Longrightarrow> \<exists>l x r. t = Node l x r \<and> set_process t p = Some (Node l p r)"
  by (cases t) auto

lemma Priority_Dequeue_ok:
  assumes swo: "swo (compare q)" and ok: "pq_ok q" and ne: "count q \<noteq> 0"
  shows "\<exists>q' x. Priority_Dequeue q = Some q' \<and> pq_ok q' \<and> Suc (count q') = count q
     \<and> compare q' = compare q \<and> Priority_Top q = Some x \<and> procs (top q) = procs (top q') + {#x#}"
proof (cases "count q = 1")
  case True
  then obtain h where h: "2 ^ h \<le> (1::nat)" "shp h (Suc 1 - 2 ^ h) (top q)"
    using ok unfolding pq_ok_def shape_def by auto
  then have "h \<le> 0" using pow2_between[of h 1 0] by simp
  then have "h = 0" by simp
  then obtain x where "top q = Node Null x Null" using h by (cases "top q") auto
  then show ?thesis using True by (simp add: Priority_Dequeue_def pq_ok_def shape_def)
next
  case False
  define n where "n = count q"
  have n2: "2 \<le> n" using False ne by (simp add: n_def)
  obtain h where h: "2 ^ h \<le> n" "n < 2 ^ Suc h" "shp h (Suc n - 2 ^ h) (top q)"
    using ok ne unfolding pq_ok_def shape_def n_def by auto
  have hp: "heap_ok (compare q) (top q)" using ok by (simp add: pq_ok_def)
  have fp: "find_pos 2 n = Some (2 ^ h)" "0 < h" using find_pos_shape[OF h(1,2) n2] by auto
  then obtain h' where h': "h = Suc h'" by (cases h) auto
  have db: "drop_bit 1 ((2::nat) ^ h) = 2 ^ h'" using h' by (simp add: drop_bit_eq_div)
  have c: "n - 2 ^ h < 2 ^ Suc h'" using h h' by simp
  have md: "n mod 2 ^ Suc h' = n - 2 ^ h" using h h' by (simp add: mod_if)
  have sc: "Suc n - 2 ^ h = Suc (n - 2 ^ h)" using h(1) by simp
  have "shp (Suc h') (Suc (n - 2 ^ h)) (top q)" using h(3) sc h' by simp
  then obtain t' p where w: "dequeue_walk (2 ^ h') n (top q) = Some (t', p)"
    and s': "shp (Suc h') (n - 2 ^ h) t'" and ok': "heap_ok (compare q) t'"
    and pr: "procs (top q) = procs t' + {#p#}" and rt: "root t' = root (top q)" "t' \<noteq> Null"
    using dequeue_walk_ok[OF _ c md hp] by blast
  obtain l x r where t': "t' = Node l x r" and sp: "set_process t' p = Some (Node l p r)"
    using set_process_shape[OF rt(2)] by blast
  have "shp h (n - 2 ^ h) (Node l p r)" using s' t' h' shp_payload by blast
  moreover have "kids_ok (compare q) (Node l p r)" using ok' t' by simp
  ultimately obtain t'' where d: "heap_down (compare q) (Node l p r) = Some t''"
    and s'': "shp h (n - 2 ^ h) t''" and ok'': "heap_ok (compare q) t''"
    and pr'': "procs t'' = procs (Node l p r)"
    using heap_down_ok[OF swo] by blast
  have "shape (n - 1) t''"
  proof (cases "n = 2 ^ h")
    case True
    define P where "P = (2::nat) ^ h'"
    have P: "1 \<le> P" "n = 2 * P" "2 ^ Suc h' = 2 * P" using True h' by (simp_all add: P_def)
    have "shp (Suc h') 0 t''" using s'' True h' by simp
    then have "shp h' P t''" unfolding P_def by (rule shp_full_down)
    moreover have "Suc (n - 1) - P = P" "P \<le> n - 1" "n - 1 < 2 * P" "n - 1 \<noteq> 0" using P(1,2) by linarith+
    ultimately have "2 ^ h' \<le> n - 1 \<and> n - 1 < 2 ^ Suc h' \<and> shp h' (Suc (n - 1) - 2 ^ h') t''"
      using P(3) unfolding P_def by metis
    then have "\<exists>k. 2 ^ k \<le> n - 1 \<and> n - 1 < 2 ^ Suc k \<and> shp k (Suc (n - 1) - 2 ^ k) t''" by blast
    then show ?thesis unfolding shape_def using \<open>n - 1 \<noteq> 0\<close> by presburger
  next
    case False
    define P where "P = (2::nat) ^ h"
    have P: "P \<le> n" "n \<noteq> P" "n < 2 ^ Suc h" using False h by (simp_all add: P_def)
    have a: "P \<le> n - 1" "Suc (n - 1) - P = n - P" "n - 1 \<noteq> 0" "n - 1 < 2 ^ Suc h" using P n2 by linarith+
    have "shp h (Suc (n - 1) - 2 ^ h) t''" using s'' a(2) unfolding P_def by metis
    then have "\<exists>k. 2 ^ k \<le> n - 1 \<and> n - 1 < 2 ^ Suc k \<and> shp k (Suc (n - 1) - 2 ^ k) t''"
      using a(1,4) unfolding P_def by blast
    then show ?thesis unfolding shape_def using a(3) by presburger
  qed
  then have shq: "shape (n - 1) t''" .
  define q' where "q' = q \<lparr> count := n - 1, top := t'' \<rparr>"
  have 1: "Priority_Dequeue q = Some q'"
    using False ne fp(1) w db sp d by (simp add: Priority_Dequeue_def n_def q'_def)
  have 2: "pq_ok q'" using shq ok'' by (simp add: pq_ok_def q'_def)
  have 3: "Suc (count q') = count q" using n2 by (simp add: q'_def n_def)
  have 4: "compare q' = compare q" by (simp add: q'_def)
  have 5: "Priority_Top q = Some x" using rt t' ne by (cases "top q") auto
  have "procs (top q) = procs t'' + {#x#}" using pr pr'' t' by simp
  then have 6: "procs (top q) = procs (top q') + {#x#}" by (simp add: q'_def)
  show ?thesis using 1 2 3 4 5 6 by blast
qed

lemma pq_ok_Init: "pq_ok (Priority_Init cmp)"
  by (simp add: pq_ok_def shape_def Priority_Init_def)

lemma Priority_Dequeue_empty: "count q = 0 \<Longrightarrow> Priority_Dequeue q = Some q"
  by (simp add: Priority_Dequeue_def)

section \<open>Running the simulator on concrete workloads\<close>

lemmas sim_defs = Simulator_GenerateProcess_def Simulator_Init_Queue_def Simulator_Init_Priority_def
  Simulator_Init_def Priority_Init_def Queue_Init_def Priority_Enqueue_def Priority_Dequeue_def
  Priority_IsEmpty_def Queue_IsEmpty_def Queue_Enqueue_def Queue_Dequeue_def Queue_Front_def
  Simulator_LoadReadyQueue_def Simulator_LoadReadyQueue_Priority_def Simulator_LoadProcess_def
  Simulator_LoadProcess_Priority_def Simulator_Queue_Waiting_def Simulator_Process_IO_Queue_def
  Simulator_Process_IO_Priority_def Simulator_CPU_Burst_def Simulator_CPU_Burst_Preemptive_def Preemptive_decision_def
  Simulator_CPU_Burst_RR_def RR_quantum_def Queue_before_IO_def Queue_before_CPU_def
  Priority_before_IO_def Priority_before_CPU_def FCFS_body_def NonPreemptive_body_def
  Preemptive_body_def RoundRobin_body_def Simulator_Eval_def double_div_def double_add_def
  double_of_def SJF_Compare_def Priority_Compare_def IO_Burst_Compare_def
  Simulator_ArrivalTime_Compare_def TIME_QUANTUM_def
  load_arrivals.simps load_io_done.simps load_arrivals_Priority.simps load_io_done_Priority.simps
  IO_Queue_loop.simps IO_Priority_loop.simps Eval_loop.simps find_pos.simps


lemma scenario_A_first:
  "\<exists>s0. Simulator_GenerateProcess (Simulator_Init_Queue 1) [scenario_A i] = Some s0
     \<and> FCFS_body R s0 = Some (False, scenario_A_running i 4 1 0)"
  by (simp add: sim_defs scenario_A_def scenario_A_running_def)

lemma scenario_A_step:
  "c - 1 \<noteq> 0 \<Longrightarrow>
   FCFS_body R (scenario_A_running i c t e) = Some (False, scenario_A_running i (c - 1) (t + 1) e)"
  by (simp add: sim_defs scenario_A_def scenario_A_running_def)

lemma scenario_A_last:
  "FCFS_body R (scenario_A_running i 1 4 4) = Some (True, scenario_A_final i)"
  "Simulator_Eval (scenario_A_terminated i) = Some (scenario_A_final i)"
  by (simp_all add: sim_defs scenario_A_def scenario_A_running_def scenario_A_terminated_def
      scenario_A_final_def)

lemma scenario_A_next: "(scenario_A_running i c t e) \<lparr> elapsed_time := elapsed_time (scenario_A_running i c t e) + 1 \<rparr>
   = scenario_A_running i c t (e + 1)"
  by (simp add: scenario_A_running_def)

lemma scenario_A_run:
  "\<exists>s0. Simulator_GenerateProcess (Simulator_Init_Queue 1) [scenario_A i] = Some s0
     \<and> Simulator_FCFS R s0 = Some (scenario_A_final i)"
proof -
  obtain s0 where s0: "Simulator_GenerateProcess (Simulator_Init_Queue 1) [scenario_A i] = Some s0"
    "FCFS_body R s0 = Some (False, scenario_A_running i 4 1 0)"
    using scenario_A_first by blast
  have "Simulator_FCFS R (scenario_A_running i 1 4 4) = Some (scenario_A_final i)"
    using scenario_A_last(1) by (subst Simulator_FCFS.simps) simp
  then have "Simulator_FCFS R (scenario_A_running i 2 3 3) = Some (scenario_A_final i)"
    using scenario_A_step[of 2 R i 3 3] by (subst Simulator_FCFS.simps) (simp add: scenario_A_next)
  then have "Simulator_FCFS R (scenario_A_running i 3 2 2) = Some (scenario_A_final i)"
    using scenario_A_step[of 3 R i 2 2] by (subst Simulator_FCFS.simps) (simp add: scenario_A_next)
  then have "Simulator_FCFS R (scenario_A_running i 4 1 1) = Some (scenario_A_final i)"
    using scenario_A_step[of 4 R i 1 1] by (subst Simulator_FCFS.simps) (simp add: scenario_A_next)
  then have "Simulator_FCFS R s0 = Some (scenario_A_final i)"
    using s0(2) by (subst Simulator_FCFS.simps) (simp add: scenario_A_next)
  then show ?thesis using s0(1) by blast
qed

lemmas pre_defs = pre_state_def pre_P1_def pre_P2_def single_def pre_tick0_def pre_tick1_def
  pre_tick1_aged_def pre_tick1_preempted_def pre_tick2_def pre_tick2_end_def

lemma pre_generate:
  "Simulator_GenerateProcess (Simulator_Init_Priority 3 SJF_Compare) [pre_P1, pre_P2] = Some pre_tick0"
  by (simp add: sim_defs pre_defs)

lemma pre_body0:
  "Preemptive_body R pre_tick0 = Some (False, pre_tick1 \<lparr> elapsed_time := 0 \<rparr>)"
  by (simp add: sim_defs pre_defs)

lemma pre_before_IO1: "Priority_before_IO pre_tick1 = Some pre_tick1_aged"
  by (simp add: sim_defs pre_defs)

lemma pre_before_CPU1: "Priority_before_CPU R pre_tick1 = Some pre_tick1_aged"
  by (simp add: sim_defs pre_defs)

lemma pre_decision1: "Preemptive_decision pre_tick1_aged = Some pre_tick1_preempted"
  by (simp add: sim_defs pre_defs)

lemma pre_dispatch1:
  "Simulator_LoadReadyQueue_Priority pre_tick1
     = Some (pre_state (Priority_Init Simulator_ArrivalTime_Compare) (single SJF_Compare pre_P2)
               (Priority_Init Simulator_ArrivalTime_Compare)
               (Some (pre_P1 \<lparr> cpu_burst_time := 4, turnaround_time := 1 \<rparr>)) 1)"
  "Simulator_LoadProcess_Priority
     (pre_state (Priority_Init Simulator_ArrivalTime_Compare) (single SJF_Compare pre_P2)
        (Priority_Init Simulator_ArrivalTime_Compare)
        (Some (pre_P1 \<lparr> cpu_burst_time := 4, turnaround_time := 1 \<rparr>)) 1)
     = Some (pre_state (Priority_Init Simulator_ArrivalTime_Compare) (single SJF_Compare pre_P2)
               (Priority_Init Simulator_ArrivalTime_Compare)
               (Some (pre_P1 \<lparr> cpu_burst_time := 4, turnaround_time := 1 \<rparr>)) 1)"
  by (simp_all add: sim_defs pre_defs)

lemma pre_body1:
  "Preemptive_body R pre_tick1 = Some (False, pre_tick2 \<lparr> elapsed_time := 1 \<rparr>)"
  by (simp add: sim_defs pre_defs)

lemma pre_body2:
  "Preemptive_body R pre_tick2 = Some (False, pre_tick2_end)"
  by (simp add: sim_defs pre_defs)

lemma pre_next:
  "(pre_tick1 \<lparr> elapsed_time := 0 \<rparr>) \<lparr> elapsed_time := elapsed_time (pre_tick1 \<lparr> elapsed_time := 0 \<rparr>) + 1 \<rparr> = pre_tick1"
  "(pre_tick2 \<lparr> elapsed_time := 1 \<rparr>) \<lparr> elapsed_time := elapsed_time (pre_tick2 \<lparr> elapsed_time := 1 \<rparr>) + 1 \<rparr> = pre_tick2"
  by (simp_all add: pre_defs)

lemma Process_update_order:
  "(p :: Process_t) \<lparr> turnaround_time := a, cpu_burst_time := b \<rparr>
     = p \<lparr> cpu_burst_time := b, turnaround_time := a \<rparr>"
  by simp

lemma Preemptive_burst_split:
  "Simulator_CPU_Burst_Preemptive R s =
     (case Preemptive_decision s of None \<Rightarrow> None | Some s' \<Rightarrow> Simulator_CPU_Burst R s')"
proof (cases "Preemptive_decision s")
  case None
  then show ?thesis by (simp add: Simulator_CPU_Burst_Preemptive_def)
next
  case (Some s')
  then show ?thesis
    unfolding Simulator_CPU_Burst_Preemptive_def Simulator_CPU_Burst_def Process_update_order
    by simp
qed


lemma instant_run:
  "\<exists>s0. Simulator_GenerateProcess (Simulator_Init_Queue 1) [instant_P i] = Some s0
     \<and> Simulator_FCFS R s0 = Some (instant_final i)"
proof -
  have "\<exists>s0. Simulator_GenerateProcess (Simulator_Init_Queue 1) [instant_P i] = Some s0
     \<and> FCFS_body R s0 = Some (True, instant_final i)"
    by (simp add: sim_defs instant_P_def instant_final_def)
  then obtain s0 where s0: "Simulator_GenerateProcess (Simulator_Init_Queue 1) [instant_P i] = Some s0"
    "FCFS_body R s0 = Some (True, instant_final i)" by blast
  have "Simulator_FCFS R s0 = Some (instant_final i)"
    using s0(2) by (subst Simulator_FCFS.simps) simp
  then show ?thesis using s0(1) by blast
qed

lemma instant_Eval: "Simulator_Eval (instant_terminated i) = Some (instant_final i)"
  by (simp add: sim_defs instant_P_def instant_final_def instant_terminated_def single_def)

lemma Probability_loop_count:
  "Probability_loop R k n N = N + length (filter (\<lambda>j. R (k + j) mod 2 \<noteq> 0) [0..<n])"
proof (induction n arbitrary: k N)
  case 0
  then show ?case by simp
next
  case (Suc n)
  have "[0..<Suc n] = 0 # map Suc [0..<n]" by (simp add: upt_conv_Cons map_Suc_upt del: upt_Suc)
  then have "filter (\<lambda>j. R (k + j) mod 2 \<noteq> 0) [0..<Suc n]
     = (if R k mod 2 \<noteq> 0 then [0] else []) @ map Suc (filter (\<lambda>j. R (Suc k + j) mod 2 \<noteq> 0) [0..<n])"
    by (simp add: filter_map comp_def del: upt_Suc)
  then show ?case using Suc.IH[of "Suc k"] by (simp del: upt_Suc)
qed

lemma Simulator_Probability_eq: "Simulator_Probability R k = (trial_fires R k, k + 100)"
  by (simp add: Simulator_Probability_def Probability_loop_count trial_fires_def)

lemma IO_Queue_loop_spec:
  "pq_ok (waiting_queue s) \<Longrightarrow> waiting_queue s = w' \<Longrightarrow> compare w' = IO_Burst_Compare \<Longrightarrow> count w' = n \<Longrightarrow>
    pq_ok tmp \<Longrightarrow> compare tmp = IO_Burst_Compare \<Longrightarrow> q_count (ready_queue s) = length (front (ready_queue s)) \<Longrightarrow>
    \<exists>ps s' tmp'. drain (waiting_queue s) = Some ps \<and> IO_Queue_loop R s tmp = Some (s', tmp')
      \<and> mset ps = procs (top (waiting_queue s)) \<and> length ps = n
      \<and> front (ready_queue s') = front (ready_queue s)
           @ map fst (filter interrupted (zip ps (trials R (rand_calls s) (length ps))))
      \<and> q_count (ready_queue s') = length (front (ready_queue s'))
      \<and> procs (top tmp') = procs (top tmp)
           + mset (map fst (filter (\<lambda>d. \<not> interrupted d) (zip ps (trials R (rand_calls s) (length ps)))))
      \<and> pq_ok tmp' \<and> compare tmp' = IO_Burst_Compare
      \<and> count (waiting_queue s') = 0 \<and> rand_calls s' = rand_calls s + 100 * length ps
      \<and> s' = s \<lparr> rand_calls := rand_calls s', waiting_queue := waiting_queue s', ready_queue := ready_queue s' \<rparr>"
proof (induction n arbitrary: s tmp w')
  case 0
  then have "top (waiting_queue s) = Null" by (simp add: pq_ok_def shape_def)
  then show ?case using 0 by (simp add: drain.simps IO_Queue_loop.simps)
next
  case (Suc n)
  have swo: "swo (compare (waiting_queue s))" using Suc.prems swo_IO by simp
  have ne: "count (waiting_queue s) \<noteq> 0" using Suc.prems by simp
  obtain q' x where d: "Priority_Dequeue (waiting_queue s) = Some q'" "pq_ok q'"
    "Suc (count q') = count (waiting_queue s)" "compare q' = compare (waiting_queue s)"
    "Priority_Top (waiting_queue s) = Some x" "procs (top (waiting_queue s)) = procs (top q') + {#x#}"
    using Priority_Dequeue_ok[OF swo Suc.prems(1) ne] by blast
  obtain fired k where pr: "Simulator_Probability R (rand_calls s) = (fired, k)" by fastforce
  have k: "k = rand_calls s + 100" "fired = trial_fires R (rand_calls s)"
    using pr by (simp_all add: Simulator_Probability_eq)
  have cq: "count q' = n" "compare q' = IO_Burst_Compare" using d Suc.prems by auto
  show ?case
  proof (cases "fired \<and> 1 < cpu_burst_time x")
    case True
    define s1 where "s1 = s \<lparr> rand_calls := k, waiting_queue := q',
       ready_queue := Queue_Enqueue (ready_queue s) x \<rparr>"
    have r1: "front (ready_queue s1) = front (ready_queue s) @ [x]"
      "q_count (ready_queue s1) = length (front (ready_queue s1))"
      using Suc.prems(7) by (auto simp: s1_def Queue_Enqueue_def)
    have step: "IO_Queue_loop R s tmp = IO_Queue_loop R s1 tmp"
      using ne d pr True by (subst IO_Queue_loop.simps) (simp add: s1_def)
    obtain ps s' tmp' where ih: "drain (waiting_queue s1) = Some ps" "IO_Queue_loop R s1 tmp = Some (s', tmp')"
      "mset ps = procs (top (waiting_queue s1))" "length ps = n"
      "front (ready_queue s') = front (ready_queue s1)
           @ map fst (filter interrupted (zip ps (trials R (rand_calls s1) (length ps))))"
      "q_count (ready_queue s') = length (front (ready_queue s'))"
      "procs (top tmp') = procs (top tmp)
           + mset (map fst (filter (\<lambda>d. \<not> interrupted d) (zip ps (trials R (rand_calls s1) (length ps)))))"
      "pq_ok tmp'" "compare tmp' = IO_Burst_Compare"
      "count (waiting_queue s') = 0" "rand_calls s' = rand_calls s1 + 100 * length ps"
      "s' = s1 \<lparr> rand_calls := rand_calls s', waiting_queue := waiting_queue s', ready_queue := ready_queue s' \<rparr>"
      using Suc.IH[of s1 q' tmp] d(2) cq Suc.prems(5,6) r1(2) by (auto simp: s1_def)
    have dr: "drain (waiting_queue s) = Some (x # ps)"
      using ne d ih(1) by (subst drain.simps) (simp add: s1_def)
    have tr: "trials R (rand_calls s) (length (x # ps)) = fired # trials R (rand_calls s1) (length ps)"
      using k by (simp add: s1_def)
    have "IO_Queue_loop R s tmp = Some (s', tmp')" using step ih(2) by simp
    moreover have "mset (x # ps) = procs (top (waiting_queue s))" using ih(3) d(6) by (simp add: s1_def)
    moreover have "front (ready_queue s') = front (ready_queue s)
           @ map fst (filter interrupted (zip (x # ps) (trials R (rand_calls s) (length (x # ps)))))"
      unfolding tr using ih(5) r1(1) True by (simp add: interrupted_def)
    moreover have "procs (top tmp') = procs (top tmp)
           + mset (map fst (filter (\<lambda>d. \<not> interrupted d) (zip (x # ps) (trials R (rand_calls s) (length (x # ps))))))"
      unfolding tr using ih(7) True by (simp add: interrupted_def)
    moreover have "rand_calls s' = rand_calls s + 100 * length (x # ps)" using ih(11) k(1) by (simp add: s1_def)
    moreover have "s' = s \<lparr> rand_calls := rand_calls s', waiting_queue := waiting_queue s', ready_queue := ready_queue s' \<rparr>"
      using ih(12) by (simp add: s1_def)
    moreover have "length (x # ps) = Suc n" using ih(4) by simp
    ultimately show ?thesis using dr ih(6,8,9,10) by blast
  next
    case False
    obtain tmp1 where e: "Priority_Enqueue tmp x = Some tmp1" "pq_ok tmp1" "compare tmp1 = compare tmp"
      "procs (top tmp1) = procs (top tmp) + {#x#}"
      using Priority_Enqueue_ok[of tmp x] Suc.prems(5,6) swo_IO by auto
    define s1 where "s1 = s \<lparr> rand_calls := k, waiting_queue := q' \<rparr>"
    have r1: "front (ready_queue s1) = front (ready_queue s)"
      "q_count (ready_queue s1) = length (front (ready_queue s1))"
      using Suc.prems(7) by (auto simp: s1_def)
    have step: "IO_Queue_loop R s tmp = IO_Queue_loop R s1 tmp1"
      using ne d pr False e(1) by (subst IO_Queue_loop.simps) (auto simp add: s1_def)
    obtain ps s' tmp' where ih: "drain (waiting_queue s1) = Some ps" "IO_Queue_loop R s1 tmp1 = Some (s', tmp')"
      "mset ps = procs (top (waiting_queue s1))" "length ps = n"
      "front (ready_queue s') = front (ready_queue s1)
           @ map fst (filter interrupted (zip ps (trials R (rand_calls s1) (length ps))))"
      "q_count (ready_queue s') = length (front (ready_queue s'))"
      "procs (top tmp') = procs (top tmp1)
           + mset (map fst (filter (\<lambda>d. \<not> interrupted d) (zip ps (trials R (rand_calls s1) (length ps)))))"
      "pq_ok tmp'" "compare tmp' = IO_Burst_Compare"
      "count (waiting_queue s') = 0" "rand_calls s' = rand_calls s1 + 100 * length ps"
      "s' = s1 \<lparr> rand_calls := rand_calls s', waiting_queue := waiting_queue s', ready_queue := ready_queue s' \<rparr>"
      using Suc.IH[of s1 q' tmp1] d(2) cq e(2,3) Suc.prems(6) r1(2) by (auto simp: s1_def)
    have dr: "drain (waiting_queue s) = Some (x # ps)"
      using ne d ih(1) by (subst drain.simps) (simp add: s1_def)
    have tr: "trials R (rand_calls s) (length (x # ps)) = fired # trials R (rand_calls s1) (length ps)"
      using k by (simp add: s1_def)
    have "IO_Queue_loop R s tmp = Some (s', tmp')" using step ih(2) by simp
    moreover have "mset (x # ps) = procs (top (waiting_queue s))" using ih(3) d(6) by (simp add: s1_def)
    moreover have "front (ready_queue s') = front (ready_queue s)
           @ map fst (filter interrupted (zip (x # ps) (trials R (rand_calls s) (length (x # ps)))))"
      unfolding tr using ih(5) r1(1) False by (simp add: interrupted_def)
    moreover have "procs (top tmp') = procs (top tmp)
           + mset (map fst (filter (\<lambda>d. \<not> interrupted d) (zip (x # ps) (trials R (rand_calls s) (length (x # ps))))))"
      unfolding tr using ih(7) e(4) False by (simp add: interrupted_def)
    moreover have "rand_calls s' = rand_calls s + 100 * length (x # ps)" using ih(11) k(1) by (simp add: s1_def)
    moreover have "s' = s \<lparr> rand_calls := rand_calls s', waiting_queue := waiting_queue s', ready_queue := ready_queue s' \<rparr>"
      using ih(12) by (simp add: s1_def)
    moreover have "length (x # ps) = Suc n" using ih(4) by simp
    ultimately show ?thesis using dr ih(6,8,9,10) by blast
  qed
qed

lemma pq_ok_single: "pq_ok (single cmp p)"
proof -
  have "shape 1 (Node Null p Null)" unfolding shape_def by (auto intro!: exI[of _ 0])
  then show ?thesis by (simp add: pq_ok_def single_def)
qed

lemma Simulator_Probability_odd: "Simulator_Probability odd_rand k = (True, k + 100)"
  by (simp add: Simulator_Probability_def Probability_loop_count odd_rand_def)

lemma Simulator_Probability_no: "Simulator_Probability no_rand k = (False, k + 100)"
  by (simp add: Simulator_Probability_def Probability_loop_count no_rand_def)



lemma Process_IO_Null [simp]: "(Simulator_Process_IO t = Null) = (t = Null)"
  by (cases t) auto

lemma Priority_Waiting_Null [simp]: "(Simulator_Priority_Waiting t = Null) = (t = Null)"
  by (cases t) auto

lemma shp_Process_IO [simp]: "shp h c (Simulator_Process_IO t) = shp h c t"
  by (induction h c t rule: shp.induct) auto

lemma shp_Priority_Waiting [simp]: "shp h c (Simulator_Priority_Waiting t) = shp h c t"
  by (induction h c t rule: shp.induct) auto

lemma shape_Process_IO [simp]: "shape n (Simulator_Process_IO t) = shape n t"
  by (simp add: shape_def)

lemma shape_Priority_Waiting [simp]: "shape n (Simulator_Priority_Waiting t) = shape n t"
  by (simp add: shape_def)

lemma procs_Process_IO:
  "procs (Simulator_Process_IO t)
     = image_mset (\<lambda>p. p \<lparr> io_burst_time := io_burst_time p - 1, turnaround_time := turnaround_time p + 1 \<rparr>)
         (procs t)"
  by (induction t) auto

lemma word_pred_less:
  fixes a b :: "32 word"
  assumes "a \<noteq> 0" "b \<noteq> 0"
  shows "(a - 1 < b - 1) = (a < b)"
proof -
  have "unat (a - 1) = unat a - 1" "unat (b - 1) = unat b - 1"
    using assms by (simp_all add: unat_minus_one)
  moreover have "0 < unat a" "0 < unat b" using assms by (simp_all add: unat_gt_0)
  ultimately show ?thesis unfolding word_less_nat_alt by linarith
qed

lemma word_pred_eq: "((a :: 32 word) - 1 = b - 1) = (a = b)"
  by simp

lemma IO_Compare_tick:
  "io_burst_time a \<noteq> 0 \<Longrightarrow> io_burst_time b \<noteq> 0 \<Longrightarrow>
   IO_Burst_Compare (a \<lparr> io_burst_time := io_burst_time a - 1, turnaround_time := turnaround_time a + 1 \<rparr>)
     (b \<lparr> io_burst_time := io_burst_time b - 1, turnaround_time := turnaround_time b + 1 \<rparr>)
   = IO_Burst_Compare a b"
  by (simp add: IO_Burst_Compare_def word_pred_less)

lemma heap_ok_Process_IO:
  "\<forall>p \<in># procs t. io_burst_time p \<noteq> 0 \<Longrightarrow> heap_ok IO_Burst_Compare t \<Longrightarrow>
   heap_ok IO_Burst_Compare (Simulator_Process_IO t)"
proof (induction t)
  case Null
  then show ?case by simp
next
  case (Node l x r)
  have "le_root IO_Burst_Compare (x \<lparr> io_burst_time := io_burst_time x - 1, turnaround_time := turnaround_time x + 1 \<rparr>) (Simulator_Process_IO l)"
    using Node.prems IO_Compare_tick by (cases l) auto
  moreover have "le_root IO_Burst_Compare (x \<lparr> io_burst_time := io_burst_time x - 1, turnaround_time := turnaround_time x + 1 \<rparr>) (Simulator_Process_IO r)"
    using Node.prems IO_Compare_tick by (cases r) auto
  ultimately show ?case using Node by simp
qed

lemma heap_ok_Priority_Waiting:
  assumes "cmp = SJF_Compare \<or> cmp = Priority_Compare"
  shows "heap_ok cmp (Simulator_Priority_Waiting t) = heap_ok cmp t"
proof -
  have c: "\<And>a b. cmp (a \<lparr> waiting_time := waiting_time a + 1, turnaround_time := turnaround_time a + 1 \<rparr>)
     (b \<lparr> waiting_time := waiting_time b + 1, turnaround_time := turnaround_time b + 1 \<rparr>) = cmp a b"
    using assms by (auto simp: SJF_Compare_def Priority_Compare_def)
  have l: "\<And>x t. le_root cmp (x \<lparr> waiting_time := waiting_time x + 1, turnaround_time := turnaround_time x + 1 \<rparr>) (Simulator_Priority_Waiting t) = le_root cmp x t"
    subgoal for x t using c by (cases t) auto done
  show ?thesis by (induction t) (auto simp: l)
qed

lemma heap_root_least:
  assumes "swo cmp"
  shows "heap_ok cmp t \<Longrightarrow> le_root cmp v t \<Longrightarrow> \<forall>y \<in># procs t. \<not> cmp y v"
proof (induction t arbitrary: v)
  case Null
  then show ?case by simp
next
  case (Node l x r)
  from Node.prems have nx: "\<not> cmp x v" "le_root cmp x l" "le_root cmp x r"
    "heap_ok cmp l" "heap_ok cmp r" by simp_all
  have "\<forall>y \<in># procs l. \<not> cmp y v"
    using Node.IH(1)[OF nx(4) le_root_trans[OF assms nx(1) nx(2)]] .
  moreover have "\<forall>y \<in># procs r. \<not> cmp y v"
    using Node.IH(2)[OF nx(5) le_root_trans[OF assms nx(1) nx(3)]] .
  ultimately show ?case using nx(1) by auto
qed

lemma IO_zero_ahead:
  "io_burst_time x \<noteq> 0 \<Longrightarrow> io_burst_time p = 0 \<Longrightarrow> IO_Burst_Compare p x"
  by (simp add: IO_Burst_Compare_def word_greater_zero_iff)

lemma IO_top_positive:
  assumes "heap_ok IO_Burst_Compare (Node l x r)" "io_burst_time x \<noteq> 0"
  shows "\<forall>p \<in># procs (Node l x r). io_burst_time p \<noteq> 0"
proof -
  have "le_root IO_Burst_Compare x (Node l x r)" by (simp add: IO_Burst_Compare_def)
  then have "\<forall>y \<in># procs (Node l x r). \<not> IO_Burst_Compare y x"
    using heap_root_least[OF swo_IO assms(1)] by blast
  then show ?thesis using assms(2) IO_zero_ahead by blast
qed


lemma swo_cases [simp]:
  "swo SJF_Compare" "swo Priority_Compare" "swo IO_Burst_Compare" "swo Simulator_ArrivalTime_Compare"
  by (rule swo_SJF swo_Priority swo_IO swo_Arrival)+

lemma Priority_Top_Node:
  "pq_ok q \<Longrightarrow> count q \<noteq> 0 \<Longrightarrow> \<exists>l x r. top q = Node l x r \<and> Priority_Top q = Some x"
  by (cases "top q") (auto simp: pq_ok_def shape_def)

lemma pq_ok_empty: "pq_ok q \<Longrightarrow> count q = 0 \<Longrightarrow> top q = Null"
  by (simp add: pq_ok_def shape_def)

lemma Dequeue_step:
  assumes "pq_ok q" "swo (compare q)" "count q \<noteq> 0"
  obtains q' x where "Priority_Top q = Some x" "Priority_Dequeue q = Some q'" "pq_ok q'"
    "Suc (count q') = count q" "compare q' = compare q" "procs (top q) = procs (top q') + {#x#}"
  using Priority_Dequeue_ok[OF assms(2,1,3)] by blast

lemma Enqueue_step:
  assumes "pq_ok q" "swo (compare q)"
  obtains q' where "Priority_Enqueue q p = Some q'" "pq_ok q'" "count q' = Suc (count q)"
    "compare q' = compare q" "procs (top q') = procs (top q) + {#p#}"
  using Priority_Enqueue_ok[OF assms(2,1), of p] by blast

lemma Queue_Enqueue_ok:
  "q_count q = length (front q) \<Longrightarrow>
   q_count (Queue_Enqueue q p) = length (front (Queue_Enqueue q p)) \<and> front (Queue_Enqueue q p) = front q @ [p]"
  by (auto simp: Queue_Enqueue_def)

lemma load_arrivals_ok:
  "count (generated_processes s) = n \<Longrightarrow> Queue_ok s \<Longrightarrow>
     \<exists>s'. load_arrivals s = Some s' \<and> Queue_ok s' \<and> waiting_queue s' = waiting_queue s
        \<and> cur_cpu_burst s' = cur_cpu_burst s"
proof (induction n arbitrary: s)
  case 0
  then show ?case by (subst load_arrivals.simps) (simp add: Priority_IsEmpty_def)
next
  case (Suc n)
  have g: "pq_ok (generated_processes s)" "swo (compare (generated_processes s))"
    "count (generated_processes s) \<noteq> 0"
    using Suc.prems by (auto simp: Queue_ok_def queues_ok_def)
  obtain q' x where d: "Priority_Top (generated_processes s) = Some x"
    "Priority_Dequeue (generated_processes s) = Some q'" "pq_ok q'"
    "Suc (count q') = count (generated_processes s)" "compare q' = compare (generated_processes s)"
    using Dequeue_step[OF g] by metis
  show ?case
  proof (cases "arrival_time x = elapsed_time s")
    case True
    define s1 where "s1 = s \<lparr> ready_queue := Queue_Enqueue (ready_queue s) x, generated_processes := q' \<rparr>"
    have "Queue_ok s1" using Suc.prems(2) d Queue_Enqueue_ok
      by (auto simp: Queue_ok_def queues_ok_def s1_def)
    moreover have "count (generated_processes s1) = n" using d(4) Suc.prems(1) by (simp add: s1_def)
    ultimately obtain s' where "load_arrivals s1 = Some s'" "Queue_ok s'"
      "waiting_queue s' = waiting_queue s1" "cur_cpu_burst s' = cur_cpu_burst s1"
      using Suc.IH[of s1] by blast
    moreover have "load_arrivals s = load_arrivals s1"
      using g(3) d True by (subst load_arrivals.simps) (simp add: Priority_IsEmpty_def s1_def)
    ultimately show ?thesis by (simp add: s1_def)
  next
    case False
    then have "load_arrivals s = Some s"
      using g(3) d by (subst load_arrivals.simps) (simp add: Priority_IsEmpty_def)
    then show ?thesis using Suc.prems(2) by simp
  qed
qed

lemma load_io_done_ok:
  "count (waiting_queue s) = n \<Longrightarrow> Queue_ok s \<Longrightarrow>
     \<exists>s'. load_io_done s = Some s' \<and> Queue_ok s' \<and> cur_cpu_burst s' = cur_cpu_burst s
        \<and> (\<forall>p \<in># procs (top (waiting_queue s')). io_burst_time p \<noteq> 0)"
proof (induction n arbitrary: s)
  case 0
  then have "top (waiting_queue s) = Null" using pq_ok_empty by (auto simp: Queue_ok_def queues_ok_def)
  then show ?case using 0 by (subst load_io_done.simps) (simp add: Priority_IsEmpty_def)
next
  case (Suc n)
  have g: "pq_ok (waiting_queue s)" "swo (compare (waiting_queue s))"
    "count (waiting_queue s) \<noteq> 0" "compare (waiting_queue s) = IO_Burst_Compare"
    using Suc.prems by (auto simp: Queue_ok_def queues_ok_def)
  obtain q' x where d: "Priority_Top (waiting_queue s) = Some x"
    "Priority_Dequeue (waiting_queue s) = Some q'" "pq_ok q'"
    "Suc (count q') = count (waiting_queue s)" "compare q' = compare (waiting_queue s)"
    using Dequeue_step[OF g(1,2,3)] by metis
  show ?case
  proof (cases "io_burst_time x = 0")
    case True
    define s1 where "s1 = s \<lparr> waiting_queue := q', ready_queue := Queue_Enqueue (ready_queue s) x \<rparr>"
    have "Queue_ok s1" using Suc.prems(2) d Queue_Enqueue_ok
      by (auto simp: Queue_ok_def queues_ok_def s1_def)
    moreover have "count (waiting_queue s1) = n" using d(4) Suc.prems(1) by (simp add: s1_def)
    ultimately obtain s' where "load_io_done s1 = Some s'" "Queue_ok s'"
      "cur_cpu_burst s' = cur_cpu_burst s1" "\<forall>p \<in># procs (top (waiting_queue s')). io_burst_time p \<noteq> 0"
      using Suc.IH[of s1] by blast
    moreover have "load_io_done s = load_io_done s1"
      using g(3) d True by (subst load_io_done.simps) (simp add: Priority_IsEmpty_def s1_def)
    ultimately show ?thesis by (simp add: s1_def)
  next
    case False
    obtain l r where t: "top (waiting_queue s) = Node l x r"
      using Priority_Top_Node[OF g(1,3)] d(1) by auto
    have "heap_ok IO_Burst_Compare (Node l x r)" using g(1,4) t by (simp add: pq_ok_def)
    then have "\<forall>p \<in># procs (top (waiting_queue s)). io_burst_time p \<noteq> 0"
      using IO_top_positive False t by simp
    moreover have "load_io_done s = Some s"
      using g(3) d False by (subst load_io_done.simps) (simp add: Priority_IsEmpty_def)
    ultimately show ?thesis using Suc.prems(2) by simp
  qed
qed

lemma Simulator_LoadProcess_ok:
  "Queue_ok s \<Longrightarrow> \<exists>s'. Simulator_LoadProcess s = Some s' \<and> Queue_ok s'
     \<and> waiting_queue s' = waiting_queue s"
proof (cases "cur_cpu_burst s = None \<and> q_count (ready_queue s) \<noteq> 0")
  case True
  assume ok: "Queue_ok s"
  then obtain p rest where f: "front (ready_queue s) = p # rest"
    using True by (cases "front (ready_queue s)") (auto simp: Queue_ok_def)
  then show ?thesis using True ok
    by (auto simp: Simulator_LoadProcess_def Queue_IsEmpty_def Queue_Front_def Queue_Dequeue_def
        Queue_ok_def queues_ok_def)
next
  case False
  assume "Queue_ok s"
  then show ?thesis using False by (auto simp: Simulator_LoadProcess_def Queue_IsEmpty_def)
qed

lemma Queue_before_IO_ok:
  assumes "Queue_ok s"
  shows "\<exists>s3. Queue_before_IO s = Some s3 \<and> Queue_ok s3
     \<and> (\<forall>p \<in># procs (top (waiting_queue s3)). io_burst_time p \<noteq> 0)"
proof -
  obtain s1 where 1: "load_arrivals s = Some s1" "Queue_ok s1"
    using load_arrivals_ok[OF refl assms] by blast
  obtain s2 where 2: "load_io_done s1 = Some s2" "Queue_ok s2"
    "\<forall>p \<in># procs (top (waiting_queue s2)). io_burst_time p \<noteq> 0"
    using load_io_done_ok[OF refl 1(2)] by blast
  obtain s3 where 3: "Simulator_LoadProcess s2 = Some s3" "Queue_ok s3"
    "waiting_queue s3 = waiting_queue s2"
    using Simulator_LoadProcess_ok[OF 2(2)] by blast
  have "Queue_before_IO s = Some (s3 \<lparr> ready_queue := Simulator_Queue_Waiting (ready_queue s3) \<rparr>)"
    using 1 2 3 by (simp add: Queue_before_IO_def Simulator_LoadReadyQueue_def)
  moreover have "Queue_ok (s3 \<lparr> ready_queue := Simulator_Queue_Waiting (ready_queue s3) \<rparr>)"
    using 3(2) by (simp add: Queue_ok_def queues_ok_def Simulator_Queue_Waiting_def)
  ultimately show ?thesis using 2(3) 3(3) by simp
qed


lemma Priority_ok_swo: "Priority_ok s \<Longrightarrow> swo (compare (ready_queue s))"
  by (auto simp: Priority_ok_def)

lemma load_arrivals_Priority_ok:
  "count (generated_processes s) = n \<Longrightarrow> Priority_ok s \<Longrightarrow>
     \<exists>s'. load_arrivals_Priority s = Some s' \<and> Priority_ok s' \<and> waiting_queue s' = waiting_queue s
        \<and> cur_cpu_burst s' = cur_cpu_burst s"
proof (induction n arbitrary: s)
  case 0
  then show ?case by (subst load_arrivals_Priority.simps) (simp add: Priority_IsEmpty_def)
next
  case (Suc n)
  have g: "pq_ok (generated_processes s)" "swo (compare (generated_processes s))"
    "count (generated_processes s) \<noteq> 0"
    using Suc.prems by (auto simp: Priority_ok_def queues_ok_def)
  have r: "pq_ok (ready_queue s)" "swo (compare (ready_queue s))"
    using Suc.prems(2) Priority_ok_swo by (auto simp: Priority_ok_def)
  obtain q' x where d: "Priority_Top (generated_processes s) = Some x"
    "Priority_Dequeue (generated_processes s) = Some q'" "pq_ok q'"
    "Suc (count q') = count (generated_processes s)" "compare q' = compare (generated_processes s)"
    using Dequeue_step[OF g] by metis
  obtain rq where e: "Priority_Enqueue (ready_queue s) x = Some rq" "pq_ok rq"
    "compare rq = compare (ready_queue s)"
    using Enqueue_step[OF r] by metis
  show ?case
  proof (cases "arrival_time x = elapsed_time s")
    case True
    define s1 where "s1 = s \<lparr> ready_queue := rq, generated_processes := q' \<rparr>"
    have "Priority_ok s1" using Suc.prems(2) d e
      by (auto simp: Priority_ok_def queues_ok_def s1_def)
    moreover have "count (generated_processes s1) = n" using d(4) Suc.prems(1) by (simp add: s1_def)
    ultimately obtain s' where "load_arrivals_Priority s1 = Some s'" "Priority_ok s'"
      "waiting_queue s' = waiting_queue s1" "cur_cpu_burst s' = cur_cpu_burst s1"
      using Suc.IH[of s1] by blast
    moreover have "load_arrivals_Priority s = load_arrivals_Priority s1"
      using g(3) d e True by (subst load_arrivals_Priority.simps) (simp add: Priority_IsEmpty_def s1_def)
    ultimately show ?thesis by (simp add: s1_def)
  next
    case False
    then have "load_arrivals_Priority s = Some s"
      using g(3) d by (subst load_arrivals_Priority.simps) (simp add: Priority_IsEmpty_def)
    then show ?thesis using Suc.prems(2) by simp
  qed
qed

lemma load_io_done_Priority_ok:
  "count (waiting_queue s) = n \<Longrightarrow> Priority_ok s \<Longrightarrow>
     \<exists>s'. load_io_done_Priority s = Some s' \<and> Priority_ok s' \<and> cur_cpu_burst s' = cur_cpu_burst s
        \<and> (\<forall>p \<in># procs (top (waiting_queue s')). io_burst_time p \<noteq> 0)"
proof (induction n arbitrary: s)
  case 0
  then have "top (waiting_queue s) = Null" using pq_ok_empty by (auto simp: Priority_ok_def queues_ok_def)
  then show ?case using 0 by (subst load_io_done_Priority.simps) (simp add: Priority_IsEmpty_def)
next
  case (Suc n)
  have g: "pq_ok (waiting_queue s)" "swo (compare (waiting_queue s))"
    "count (waiting_queue s) \<noteq> 0" "compare (waiting_queue s) = IO_Burst_Compare"
    using Suc.prems by (auto simp: Priority_ok_def queues_ok_def)
  have r: "pq_ok (ready_queue s)" "swo (compare (ready_queue s))"
    using Suc.prems(2) Priority_ok_swo by (auto simp: Priority_ok_def)
  obtain q' x where d: "Priority_Top (waiting_queue s) = Some x"
    "Priority_Dequeue (waiting_queue s) = Some q'" "pq_ok q'"
    "Suc (count q') = count (waiting_queue s)" "compare q' = compare (waiting_queue s)"
    using Dequeue_step[OF g(1,2,3)] by metis
  obtain rq where e: "Priority_Enqueue (ready_queue s) x = Some rq" "pq_ok rq"
    "compare rq = compare (ready_queue s)"
    using Enqueue_step[OF r] by metis
  show ?case
  proof (cases "io_burst_time x = 0")
    case True
    define s1 where "s1 = s \<lparr> waiting_queue := q', ready_queue := rq \<rparr>"
    have "Priority_ok s1" using Suc.prems(2) d e
      by (auto simp: Priority_ok_def queues_ok_def s1_def)
    moreover have "count (waiting_queue s1) = n" using d(4) Suc.prems(1) by (simp add: s1_def)
    ultimately obtain s' where "load_io_done_Priority s1 = Some s'" "Priority_ok s'"
      "cur_cpu_burst s' = cur_cpu_burst s1" "\<forall>p \<in># procs (top (waiting_queue s')). io_burst_time p \<noteq> 0"
      using Suc.IH[of s1] by blast
    moreover have "load_io_done_Priority s = load_io_done_Priority s1"
      using g(3) d e True by (subst load_io_done_Priority.simps) (simp add: Priority_IsEmpty_def s1_def)
    ultimately show ?thesis by (simp add: s1_def)
  next
    case False
    obtain l r where t: "top (waiting_queue s) = Node l x r"
      using Priority_Top_Node[OF g(1,3)] d(1) by auto
    have "heap_ok IO_Burst_Compare (Node l x r)" using g(1,4) t by (simp add: pq_ok_def)
    then have "\<forall>p \<in># procs (top (waiting_queue s)). io_burst_time p \<noteq> 0"
      using IO_top_positive False t by simp
    moreover have "load_io_done_Priority s = Some s"
      using g(3) d False by (subst load_io_done_Priority.simps) (simp add: Priority_IsEmpty_def)
    ultimately show ?thesis using Suc.prems(2) by simp
  qed
qed

lemma Simulator_LoadProcess_Priority_ok:
  assumes ok: "Priority_ok s"
  shows "\<exists>s'. Simulator_LoadProcess_Priority s = Some s' \<and> Priority_ok s'
     \<and> waiting_queue s' = waiting_queue s
     \<and> (cur_cpu_burst s \<noteq> None \<longrightarrow> cur_cpu_burst s' = cur_cpu_burst s)"
proof (cases "cur_cpu_burst s = None \<and> count (ready_queue s) \<noteq> 0")
  case True
  have r: "pq_ok (ready_queue s)" "swo (compare (ready_queue s))"
    using ok Priority_ok_swo by (auto simp: Priority_ok_def)
  obtain q' x where d: "Priority_Top (ready_queue s) = Some x"
    "Priority_Dequeue (ready_queue s) = Some q'" "pq_ok q'"
    "compare q' = compare (ready_queue s)"
    using Dequeue_step[OF r] True by metis
  have "Simulator_LoadProcess_Priority s = Some (s \<lparr> cur_cpu_burst := Some x, ready_queue := q' \<rparr>)"
    using True d by (simp add: Simulator_LoadProcess_Priority_def Priority_IsEmpty_def)
  moreover have "Priority_ok (s \<lparr> cur_cpu_burst := Some x, ready_queue := q' \<rparr>)"
    using ok d by (auto simp: Priority_ok_def queues_ok_def)
  ultimately show ?thesis using True by simp
next
  case False
  then show ?thesis using ok by (auto simp: Simulator_LoadProcess_Priority_def Priority_IsEmpty_def)
qed

lemma pq_ok_Priority_Waiting:
  assumes "pq_ok q" "compare q = SJF_Compare \<or> compare q = Priority_Compare"
  shows "pq_ok (q \<lparr> top := Simulator_Priority_Waiting (top q) \<rparr>)"
  using assms heap_ok_Priority_Waiting[OF assms(2)] by (simp add: pq_ok_def)

lemma Priority_before_IO_ok:
  assumes "Priority_ok s"
  shows "\<exists>s3. Priority_before_IO s = Some s3 \<and> Priority_ok s3
     \<and> (\<forall>p \<in># procs (top (waiting_queue s3)). io_burst_time p \<noteq> 0)
     \<and> (cur_cpu_burst s \<noteq> None \<longrightarrow> cur_cpu_burst s3 = cur_cpu_burst s)"
proof -
  obtain s1 where 1: "load_arrivals_Priority s = Some s1" "Priority_ok s1"
    "cur_cpu_burst s1 = cur_cpu_burst s"
    using load_arrivals_Priority_ok[OF refl assms] by blast
  obtain s2 where 2: "load_io_done_Priority s1 = Some s2" "Priority_ok s2"
    "\<forall>p \<in># procs (top (waiting_queue s2)). io_burst_time p \<noteq> 0"
    "cur_cpu_burst s2 = cur_cpu_burst s1"
    using load_io_done_Priority_ok[OF refl 1(2)] by blast
  obtain s3 where 3: "Simulator_LoadProcess_Priority s2 = Some s3" "Priority_ok s3"
    "waiting_queue s3 = waiting_queue s2"
    "cur_cpu_burst s2 \<noteq> None \<longrightarrow> cur_cpu_burst s3 = cur_cpu_burst s2"
    using Simulator_LoadProcess_Priority_ok[OF 2(2)] by blast
  define s4 where "s4 = s3 \<lparr> ready_queue := (ready_queue s3)
                            \<lparr> top := Simulator_Priority_Waiting (top (ready_queue s3)) \<rparr> \<rparr>"
  have "Priority_before_IO s = Some s4"
    using 1 2 3 by (simp add: Priority_before_IO_def Simulator_LoadReadyQueue_Priority_def s4_def)
  moreover have "Priority_ok s4"
    using 3(2) pq_ok_Priority_Waiting[of "ready_queue s3"]
    by (auto simp: Priority_ok_def queues_ok_def s4_def)
  ultimately show ?thesis using 1(3) 2(3,4) 3(3,4) by (simp add: s4_def)
qed

lemma pq_ok_Process_IO:
  assumes "pq_ok q" "compare q = IO_Burst_Compare" "\<forall>p \<in># procs (top q). io_burst_time p \<noteq> 0"
  shows "pq_ok (q \<lparr> top := Simulator_Process_IO (top q) \<rparr>)"
  using assms heap_ok_Process_IO by (simp add: pq_ok_def)


lemma IO_Priority_loop_ok:
  "count (waiting_queue s) = n \<Longrightarrow> Priority_ok s \<Longrightarrow> pq_ok tmp \<Longrightarrow> compare tmp = IO_Burst_Compare \<Longrightarrow>
     \<exists>s' tmp'. IO_Priority_loop R s tmp = Some (s', tmp') \<and> Priority_ok s' \<and> pq_ok tmp'
        \<and> compare tmp' = IO_Burst_Compare \<and> cur_cpu_burst s' = cur_cpu_burst s"
proof (induction n arbitrary: s tmp)
  case 0
  then show ?case by (subst IO_Priority_loop.simps) simp
next
  case (Suc n)
  have g: "pq_ok (waiting_queue s)" "swo (compare (waiting_queue s))"
    "count (waiting_queue s) \<noteq> 0"
    using Suc.prems by (auto simp: Priority_ok_def queues_ok_def)
  have r: "pq_ok (ready_queue s)" "swo (compare (ready_queue s))"
    using Suc.prems(2) Priority_ok_swo by (auto simp: Priority_ok_def)
  have t: "pq_ok tmp" "swo (compare tmp)" using Suc.prems by auto
  obtain q' x where d: "Priority_Top (waiting_queue s) = Some x"
    "Priority_Dequeue (waiting_queue s) = Some q'" "pq_ok q'"
    "Suc (count q') = count (waiting_queue s)" "compare q' = compare (waiting_queue s)"
    using Dequeue_step[OF g] by metis
  obtain rq where e: "Priority_Enqueue (ready_queue s) x = Some rq" "pq_ok rq"
    "compare rq = compare (ready_queue s)"
    using Enqueue_step[OF r] by metis
  obtain tmp1 where f: "Priority_Enqueue tmp x = Some tmp1" "pq_ok tmp1" "compare tmp1 = compare tmp"
    using Enqueue_step[OF t] by metis
  obtain fired k where pr: "Simulator_Probability R (rand_calls s) = (fired, k)" by fastforce
  show ?case
  proof (cases "fired \<and> 1 < cpu_burst_time x")
    case True
    define s1 where "s1 = s \<lparr> rand_calls := k, waiting_queue := q', ready_queue := rq \<rparr>"
    have "Priority_ok s1" using Suc.prems(2) d e by (auto simp: Priority_ok_def queues_ok_def s1_def)
    moreover have "count (waiting_queue s1) = n" using d(4) Suc.prems(1) by (simp add: s1_def)
    ultimately obtain s' tmp' where "IO_Priority_loop R s1 tmp = Some (s', tmp')" "Priority_ok s'"
      "pq_ok tmp'" "compare tmp' = IO_Burst_Compare" "cur_cpu_burst s' = cur_cpu_burst s1"
      using Suc.IH[of s1 tmp] Suc.prems(3,4) by blast
    moreover have "IO_Priority_loop R s tmp = IO_Priority_loop R s1 tmp"
      using g(3) d e pr True by (subst IO_Priority_loop.simps) (simp add: s1_def)
    ultimately show ?thesis by (simp add: s1_def)
  next
    case False
    define s1 where "s1 = s \<lparr> rand_calls := k, waiting_queue := q' \<rparr>"
    have "Priority_ok s1" using Suc.prems(2) d by (auto simp: Priority_ok_def queues_ok_def s1_def)
    moreover have "count (waiting_queue s1) = n" using d(4) Suc.prems(1) by (simp add: s1_def)
    ultimately obtain s' tmp' where "IO_Priority_loop R s1 tmp1 = Some (s', tmp')" "Priority_ok s'"
      "pq_ok tmp'" "compare tmp' = IO_Burst_Compare" "cur_cpu_burst s' = cur_cpu_burst s1"
      using Suc.IH[of s1 tmp1] f Suc.prems(4) by auto
    moreover have "IO_Priority_loop R s tmp = IO_Priority_loop R s1 tmp1"
      using g(3) d f pr False by (subst IO_Priority_loop.simps) (auto simp add: s1_def)
    ultimately show ?thesis by (simp add: s1_def)
  qed
qed

lemma Simulator_Process_IO_Priority_ok:
  assumes "Priority_ok s"
  shows "\<exists>s'. Simulator_Process_IO_Priority R s = Some s' \<and> Priority_ok s'
     \<and> cur_cpu_burst s' = cur_cpu_burst s"
proof (cases "count (waiting_queue s) = 0")
  case True
  then show ?thesis using assms by (simp add: Simulator_Process_IO_Priority_def Priority_IsEmpty_def)
next
  case False
  obtain s' tmp' where l: "IO_Priority_loop R s (Priority_Init IO_Burst_Compare) = Some (s', tmp')"
    "Priority_ok s'" "pq_ok tmp'" "compare tmp' = IO_Burst_Compare" "cur_cpu_burst s' = cur_cpu_burst s"
    using IO_Priority_loop_ok[where R = R and tmp = "Priority_Init IO_Burst_Compare", OF refl assms pq_ok_Init]
    by (auto simp: Priority_Init_def)
  have "Simulator_Process_IO_Priority R s = Some (s' \<lparr> waiting_queue := tmp' \<rparr>)"
    using False l(1) by (simp add: Simulator_Process_IO_Priority_def Priority_IsEmpty_def)
  moreover have "Priority_ok (s' \<lparr> waiting_queue := tmp' \<rparr>)"
    using l by (auto simp: Priority_ok_def queues_ok_def)
  ultimately show ?thesis using l(5) by simp
qed

lemma Simulator_Process_IO_Queue_ok:
  assumes "Queue_ok s"
  shows "\<exists>s'. Simulator_Process_IO_Queue R s = Some s' \<and> Queue_ok s'"
proof (cases "count (waiting_queue s) = 0")
  case True
  then show ?thesis using assms by (simp add: Simulator_Process_IO_Queue_def Priority_IsEmpty_def)
next
  case False
  have w: "pq_ok (waiting_queue s)" "compare (waiting_queue s) = IO_Burst_Compare"
    "q_count (ready_queue s) = length (front (ready_queue s))"
    using assms by (auto simp: Queue_ok_def queues_ok_def)
  obtain s' tmp' where l: "IO_Queue_loop R s (Priority_Init IO_Burst_Compare) = Some (s', tmp')"
    "q_count (ready_queue s') = length (front (ready_queue s'))"
    "pq_ok tmp'" "compare tmp' = IO_Burst_Compare"
    "s' = s \<lparr> rand_calls := rand_calls s', waiting_queue := waiting_queue s', ready_queue := ready_queue s' \<rparr>"
    using IO_Queue_loop_spec[where R = R and tmp = "Priority_Init IO_Burst_Compare", OF w(1) refl w(2) refl pq_ok_Init _ w(3)]
    by (auto simp: Priority_Init_def)
  have "Simulator_Process_IO_Queue R s = Some (s' \<lparr> waiting_queue := tmp' \<rparr>)"
    using False l(1) by (simp add: Simulator_Process_IO_Queue_def Priority_IsEmpty_def)
  moreover have "generated_processes s' = generated_processes s" "terminated_processes s' = terminated_processes s"
    by (subst l(5), simp)+
  then have "Queue_ok (s' \<lparr> waiting_queue := tmp' \<rparr>)"
    using l(2,3,4) assms by (auto simp: Queue_ok_def queues_ok_def)
  ultimately show ?thesis by simp
qed

lemma Eval_loop_ok:
  "count (terminated_processes s) = n \<Longrightarrow> queues_ok s \<Longrightarrow>
     \<exists>s'. Eval_loop s = Some s' \<and> queues_ok s' \<and> ready_queue s' = ready_queue s
       \<and> cur_cpu_burst s' = cur_cpu_burst s"
proof (induction n arbitrary: s)
  case 0
  then show ?case by (subst Eval_loop.simps) simp
next
  case (Suc n)
  have g: "pq_ok (terminated_processes s)" "swo (compare (terminated_processes s))"
    "count (terminated_processes s) \<noteq> 0"
    using Suc.prems by (auto simp: queues_ok_def)
  obtain q' x where d: "Priority_Top (terminated_processes s) = Some x"
    "Priority_Dequeue (terminated_processes s) = Some q'" "pq_ok q'"
    "Suc (count q') = count (terminated_processes s)" "compare q' = compare (terminated_processes s)"
    using Dequeue_step[OF g] by metis
  define s1 where "s1 = s \<lparr> terminated_processes := q',
       avg_waiting_time := double_add (avg_waiting_time s) (double_of (waiting_time x)),
       avg_turnaround_time := double_add (avg_turnaround_time s) (double_of (turnaround_time x)),
       max_waiting_time := (if max_waiting_time s < waiting_time x then waiting_time x
                            else max_waiting_time s) \<rparr>"
  have "queues_ok s1" using Suc.prems(2) d by (auto simp: queues_ok_def s1_def)
  moreover have "count (terminated_processes s1) = n" using d(4) Suc.prems(1) by (simp add: s1_def)
  ultimately obtain s' where "Eval_loop s1 = Some s'" "queues_ok s'" "ready_queue s' = ready_queue s1"
    "cur_cpu_burst s' = cur_cpu_burst s1"
    using Suc.IH[of s1] by blast
  moreover have "Eval_loop s = Eval_loop s1"
    using g(3) d by (subst Eval_loop.simps) (simp add: s1_def)
  ultimately show ?case by (simp add: s1_def)
qed

lemma Simulator_Eval_ok:
  assumes "queues_ok s"
  shows "\<exists>s'. Simulator_Eval s = Some s' \<and> queues_ok s' \<and> ready_queue s' = ready_queue s
     \<and> cur_cpu_burst s' = cur_cpu_burst s"
proof -
  obtain s' where "Eval_loop s = Some s'" "queues_ok s'" "ready_queue s' = ready_queue s"
    "cur_cpu_burst s' = cur_cpu_burst s"
    using Eval_loop_ok[OF refl assms] by blast
  then show ?thesis by (simp add: Simulator_Eval_def queues_ok_def)
qed


lemma Simulator_CPU_Burst_ok:
  assumes ok: "queues_ok s"
  shows "\<exists>b s'. Simulator_CPU_Burst R s = Some (b, s') \<and> queues_ok s' \<and> ready_queue s' = ready_queue s"
proof (cases "cur_cpu_burst s")
  case None
  then show ?thesis using ok by (auto simp: Simulator_CPU_Burst_def queues_ok_def)
next
  case (Some p0)
  define p where "p = p0 \<lparr> cpu_burst_time := cpu_burst_time p0 - 1, turnaround_time := turnaround_time p0 + 1 \<rparr>"
  have w: "pq_ok (waiting_queue s)" "swo (compare (waiting_queue s))"
    and t: "pq_ok (terminated_processes s)" "swo (compare (terminated_processes s))"
    using ok by (auto simp: queues_ok_def)
  obtain wq where e: "Priority_Enqueue (waiting_queue s) p = Some wq" "pq_ok wq"
    "compare wq = compare (waiting_queue s)"
    using Enqueue_step[OF w] by metis
  obtain tq where f: "Priority_Enqueue (terminated_processes s) p = Some tq" "pq_ok tq"
    "compare tq = compare (terminated_processes s)"
    using Enqueue_step[OF t] by metis
  define s1 where "s1 = s \<lparr> terminated_processes := tq, cur_cpu_burst := None \<rparr>"
  have ok1: "queues_ok s1" using ok f by (simp add: queues_ok_def s1_def)
  obtain s2 where ev: "Simulator_Eval s1 = Some s2" "queues_ok s2" "ready_queue s2 = ready_queue s1"
    using Simulator_Eval_ok[OF ok1] by blast
  obtain fired k where pr: "Simulator_Probability R (rand_calls s) = (fired, k)" by fastforce
  have okw: "queues_ok (s \<lparr> waiting_queue := wq, cur_cpu_burst := None \<rparr>)"
    "queues_ok (s \<lparr> rand_calls := k, waiting_queue := wq, cur_cpu_burst := None \<rparr>)"
    "queues_ok (s \<lparr> rand_calls := k, cur_cpu_burst := Some p \<rparr>)"
    "queues_ok (s \<lparr> cur_cpu_burst := Some p \<rparr>)"
    using ok e by (simp_all add: queues_ok_def)
  have r1: "ready_queue s1 = ready_queue s" by (simp add: s1_def)
  show ?thesis
    using Some e f ev pr okw ok1 r1
    by (auto simp: Simulator_CPU_Burst_def Let_def p_def[symmetric] s1_def[symmetric])
qed

lemma Simulator_CPU_Burst_RR_ok:
  assumes ok: "Queue_ok s"
  shows "\<exists>b s' tq'. Simulator_CPU_Burst_RR R s tq = Some (b, s', tq') \<and> Queue_ok s'"
proof (cases "cur_cpu_burst s")
  case None
  then show ?thesis using ok by (auto simp: Simulator_CPU_Burst_RR_def Queue_ok_def queues_ok_def)
next
  case (Some p0)
  define p where "p = p0 \<lparr> cpu_burst_time := cpu_burst_time p0 - 1, turnaround_time := turnaround_time p0 + 1 \<rparr>"
  have qs: "queues_ok s" and rc: "q_count (ready_queue s) = length (front (ready_queue s))"
    using ok by (auto simp: Queue_ok_def)
  have w: "pq_ok (waiting_queue s)" "swo (compare (waiting_queue s))"
    and t: "pq_ok (terminated_processes s)" "swo (compare (terminated_processes s))"
    using qs by (auto simp: queues_ok_def)
  obtain wq where e: "Priority_Enqueue (waiting_queue s) p = Some wq" "pq_ok wq"
    "compare wq = compare (waiting_queue s)"
    using Enqueue_step[OF w] by metis
  obtain tq1 where f: "Priority_Enqueue (terminated_processes s) p = Some tq1" "pq_ok tq1"
    "compare tq1 = compare (terminated_processes s)"
    using Enqueue_step[OF t] by metis
  define s1 where "s1 = s \<lparr> terminated_processes := tq1, cur_cpu_burst := None \<rparr>"
  have ok1: "queues_ok s1" "Queue_ok s1" using ok f by (simp_all add: Queue_ok_def queues_ok_def s1_def)
  obtain s2 where ev: "Simulator_Eval s1 = Some s2" "queues_ok s2" "ready_queue s2 = ready_queue s1"
    using Simulator_Eval_ok[OF ok1(1)] by blast
  have ok2: "Queue_ok s2" using ev rc by (simp add: Queue_ok_def s1_def)
  obtain fired k where pr: "Simulator_Probability R (rand_calls s) = (fired, k)" by fastforce
  have q0: "\<And>s'. Queue_ok s' \<Longrightarrow> \<exists>b s'' tq'. RR_quantum s' 0 = Some (b, s'', tq') \<and> Queue_ok s''"
    by (auto simp: RR_quantum_def TIME_QUANTUM_def)
  have q1: "\<And>s' x y. Queue_ok s' \<Longrightarrow> cur_cpu_burst s' = Some y \<Longrightarrow>
      \<exists>b s'' tq'. RR_quantum s' x = Some (b, s'', tq') \<and> Queue_ok s''"
    using Queue_Enqueue_ok by (auto simp: RR_quantum_def Queue_ok_def queues_ok_def)
  have okw: "Queue_ok (s \<lparr> waiting_queue := wq, cur_cpu_burst := None \<rparr>)"
    "Queue_ok (s \<lparr> rand_calls := k, waiting_queue := wq, cur_cpu_burst := None \<rparr>)"
    "Queue_ok (s \<lparr> rand_calls := k, cur_cpu_burst := Some p \<rparr>)"
    "Queue_ok (s \<lparr> cur_cpu_burst := Some p \<rparr>)"
    using ok e by (simp_all add: Queue_ok_def queues_ok_def)
  show ?thesis
  proof (cases "cpu_burst_time p = 0")
    case True
    then show ?thesis using Some f ev ok1 ok2
      by (auto simp: Simulator_CPU_Burst_RR_def Let_def p_def[symmetric] s1_def[symmetric])
  next
    case c0: False
    show ?thesis
    proof (cases "io_burst_time p = 0")
      case True
      then show ?thesis using Some c0 q1[OF okw(4)]
        by (auto simp: Simulator_CPU_Burst_RR_def Let_def p_def[symmetric])
    next
      case i0: False
      show ?thesis
      proof (cases "cpu_burst_time p = 1")
        case True
        then show ?thesis using Some c0 i0 e q0[OF okw(1)]
          by (auto simp: Simulator_CPU_Burst_RR_def Let_def p_def[symmetric])
      next
        case False
        then show ?thesis using Some c0 i0 e pr q0[OF okw(2)] q1[OF okw(3)]
          by (cases fired) (auto simp: Simulator_CPU_Burst_RR_def Let_def p_def[symmetric])
      qed
    qed
  qed
qed

lemma Preemptive_decision_ok:
  assumes ok: "Priority_ok s"
  shows "\<exists>s'. Preemptive_decision s = Some s' \<and> Priority_ok s'"
proof (cases "cur_cpu_burst s")
  case None
  then show ?thesis using ok by (simp add: Preemptive_decision_def)
next
  case (Some running)
  show ?thesis
  proof (cases "count (ready_queue s) = 0")
    case True
    then show ?thesis using ok Some by (simp add: Preemptive_decision_def Priority_IsEmpty_def)
  next
    case False
    have r: "pq_ok (ready_queue s)" "swo (compare (ready_queue s))"
      using ok Priority_ok_swo by (auto simp: Priority_ok_def)
    obtain l h r' where t: "top (ready_queue s) = Node l h r'"
      using Priority_Top_Node[OF r(1) False] by blast
    obtain rq where e: "Priority_Enqueue (ready_queue s) running = Some rq" "pq_ok rq"
      "compare rq = compare (ready_queue s)"
      using Enqueue_step[OF r] by metis
    have "Priority_ok (s \<lparr> ready_queue := rq, cur_cpu_burst := None \<rparr>)"
      using ok e by (auto simp: Priority_ok_def queues_ok_def)
    then obtain s' where "Simulator_LoadProcess_Priority (s \<lparr> ready_queue := rq, cur_cpu_burst := None \<rparr>) = Some s'"
      "Priority_ok s'"
      using Simulator_LoadProcess_Priority_ok by blast
    then show ?thesis using ok Some False t e
      by (simp add: Preemptive_decision_def Priority_IsEmpty_def)
  qed
qed


lemma Queue_before_CPU_ok:
  assumes "Queue_ok s"
  shows "\<exists>s'. Queue_before_CPU R s = Some s' \<and> Queue_ok s'"
proof -
  obtain s3 where 3: "Queue_before_IO s = Some s3" "Queue_ok s3"
    "\<forall>p \<in># procs (top (waiting_queue s3)). io_burst_time p \<noteq> 0"
    using Queue_before_IO_ok[OF assms] by blast
  define s4 where "s4 = s3 \<lparr> waiting_queue := (waiting_queue s3)
                     \<lparr> top := Simulator_Process_IO (top (waiting_queue s3)) \<rparr> \<rparr>"
  have "Queue_ok s4" using 3(2,3) pq_ok_Process_IO[of "waiting_queue s3"]
    by (auto simp: Queue_ok_def queues_ok_def s4_def)
  then obtain s' where "Simulator_Process_IO_Queue R s4 = Some s'" "Queue_ok s'"
    using Simulator_Process_IO_Queue_ok by blast
  then show ?thesis using 3(1) by (simp add: Queue_before_CPU_def s4_def)
qed

lemma Priority_before_CPU_ok:
  assumes "Priority_ok s"
  shows "\<exists>s'. Priority_before_CPU R s = Some s' \<and> Priority_ok s'
     \<and> (cur_cpu_burst s \<noteq> None \<longrightarrow> cur_cpu_burst s' = cur_cpu_burst s)"
proof -
  obtain s3 where 3: "Priority_before_IO s = Some s3" "Priority_ok s3"
    "\<forall>p \<in># procs (top (waiting_queue s3)). io_burst_time p \<noteq> 0"
    "cur_cpu_burst s \<noteq> None \<longrightarrow> cur_cpu_burst s3 = cur_cpu_burst s"
    using Priority_before_IO_ok[OF assms] by blast
  define s4 where "s4 = s3 \<lparr> waiting_queue := (waiting_queue s3)
                     \<lparr> top := Simulator_Process_IO (top (waiting_queue s3)) \<rparr> \<rparr>"
  have "Priority_ok s4" using 3(2,3) pq_ok_Process_IO[of "waiting_queue s3"]
    by (auto simp: Priority_ok_def queues_ok_def s4_def)
  then obtain s' where "Simulator_Process_IO_Priority R s4 = Some s'" "Priority_ok s'"
    "cur_cpu_burst s' = cur_cpu_burst s4"
    using Simulator_Process_IO_Priority_ok by blast
  then show ?thesis using 3(1,4) by (simp add: Priority_before_CPU_def s4_def)
qed

lemma FCFS_body_ok:
  assumes "Queue_ok s"
  shows "\<exists>b s'. FCFS_body R s = Some (b, s') \<and> Queue_ok s'"
proof -
  obtain s1 where 1: "Queue_before_CPU R s = Some s1" "Queue_ok s1"
    using Queue_before_CPU_ok[OF assms] by blast
  then obtain b s' where "Simulator_CPU_Burst R s1 = Some (b, s')" "queues_ok s'"
    "ready_queue s' = ready_queue s1"
    using Simulator_CPU_Burst_ok[of s1 R] by (auto simp: Queue_ok_def)
  then show ?thesis using 1 by (auto simp: FCFS_body_def Queue_ok_def)
qed

lemma RoundRobin_body_ok:
  assumes "Queue_ok s"
  shows "\<exists>b s' tq'. RoundRobin_body R s tq = Some (b, s', tq') \<and> Queue_ok s'"
proof -
  obtain s1 where 1: "Queue_before_CPU R s = Some s1" "Queue_ok s1"
    using Queue_before_CPU_ok[OF assms] by blast
  then show ?thesis using Simulator_CPU_Burst_RR_ok[OF 1(2), of R tq] by (auto simp: RoundRobin_body_def)
qed

lemma NonPreemptive_body_ok:
  assumes "Priority_ok s"
  shows "\<exists>b s'. NonPreemptive_body R s = Some (b, s') \<and> Priority_ok s'"
proof -
  obtain s1 where 1: "Priority_before_CPU R s = Some s1" "Priority_ok s1"
    using Priority_before_CPU_ok[OF assms] by blast
  then obtain b s' where "Simulator_CPU_Burst R s1 = Some (b, s')" "queues_ok s'"
    "ready_queue s' = ready_queue s1"
    using Simulator_CPU_Burst_ok[of s1 R] by (auto simp: Priority_ok_def)
  then show ?thesis using 1 by (auto simp: NonPreemptive_body_def Priority_ok_def)
qed

lemma Preemptive_body_ok:
  assumes "Priority_ok s"
  shows "\<exists>b s'. Preemptive_body R s = Some (b, s') \<and> Priority_ok s'"
proof -
  obtain s1 where 1: "Priority_before_CPU R s = Some s1" "Priority_ok s1"
    using Priority_before_CPU_ok[OF assms] by blast
  obtain s2 where 2: "Preemptive_decision s1 = Some s2" "Priority_ok s2"
    using Preemptive_decision_ok[OF 1(2)] by blast
  then obtain b s' where "Simulator_CPU_Burst R s2 = Some (b, s')" "queues_ok s'"
    "ready_queue s' = ready_queue s2"
    using Simulator_CPU_Burst_ok[of s2 R] by (auto simp: Priority_ok_def)
  then show ?thesis using 1 2 by (auto simp: Preemptive_body_def Preemptive_burst_split Priority_ok_def)
qed

lemma ok_elapsed [simp]:
  "Queue_ok (s \<lparr> elapsed_time := e \<rparr>) = Queue_ok s"
  "Priority_ok (t \<lparr> elapsed_time := e \<rparr>) = Priority_ok t"
  by (simp_all add: Queue_ok_def Priority_ok_def queues_ok_def)

lemma loop_head_ok:
  assumes "\<And>s. I s \<Longrightarrow> \<exists>b s'. body s = Some (b, s') \<and> I s'"
    and "\<And>s e. I s \<Longrightarrow> I (s \<lparr> elapsed_time := e \<rparr>)"
  shows "I s0 \<Longrightarrow> loop_head body s0 n = Some s \<Longrightarrow> I s"
proof (induction n arbitrary: s0)
  case 0
  then show ?case by simp
next
  case (Suc n)
  obtain b s' where b: "body s0 = Some (b, s')" "I s'" using assms(1)[OF Suc.prems(1)] by blast
  then have "\<not> b" "loop_head body (s' \<lparr> elapsed_time := elapsed_time s' + 1 \<rparr>) n = Some s"
    using Suc.prems(2) by (auto split: if_splits)
  then show ?case using Suc.IH[OF assms(2)[OF b(2)]] by blast
qed

lemma RoundRobin_head_ok:
  "Queue_ok s0 \<Longrightarrow> RoundRobin_head R s0 tq0 n = Some (s, tq) \<Longrightarrow> Queue_ok s"
proof (induction n arbitrary: s0 tq0)
  case 0
  then show ?case by simp
next
  case (Suc n)
  obtain b s' tq' where b: "RoundRobin_body R s0 tq0 = Some (b, s', tq')" "Queue_ok s'"
    using RoundRobin_body_ok[OF Suc.prems(1)] by blast
  then have "RoundRobin_head R (s' \<lparr> elapsed_time := elapsed_time s' + 1 \<rparr>) tq' n = Some (s, tq)"
    using Suc.prems(2) by (auto split: if_splits)
  then show ?case using Suc.IH[of "s' \<lparr> elapsed_time := elapsed_time s' + 1 \<rparr>" tq'] b(2) by simp
qed

lemma enqueue_all_ok:
  "pq_ok q \<Longrightarrow> swo (compare q) \<Longrightarrow>
     \<exists>q'. enqueue_all q ps = Some q' \<and> pq_ok q' \<and> compare q' = compare q"
proof (induction ps arbitrary: q)
  case Nil
  then show ?case by simp
next
  case (Cons p ps)
  obtain q1 where "Priority_Enqueue q p = Some q1" "pq_ok q1" "compare q1 = compare q"
    using Enqueue_step[OF Cons.prems] by metis
  then show ?case using Cons.IH[of q1] Cons.prems(2) by auto
qed

lemma Generate_Queue_ok:
  "\<exists>s0. Simulator_GenerateProcess (Simulator_Init_Queue flg) ps = Some s0 \<and> Queue_ok s0"
proof -
  obtain q where "enqueue_all (Priority_Init Simulator_ArrivalTime_Compare) ps = Some q" "pq_ok q"
    "compare q = Simulator_ArrivalTime_Compare"
    using enqueue_all_ok[OF pq_ok_Init, of Simulator_ArrivalTime_Compare ps]
    by (auto simp: Priority_Init_def)
  then show ?thesis using pq_ok_Init
    by (simp add: Simulator_GenerateProcess_def Simulator_Init_Queue_def Simulator_Init_def
        Queue_ok_def queues_ok_def Queue_Init_def) (simp add: Priority_Init_def)
qed

lemma Generate_Priority_ok:
  assumes "cmp = SJF_Compare \<or> cmp = Priority_Compare"
  shows "\<exists>s0. Simulator_GenerateProcess (Simulator_Init_Priority flg cmp) ps = Some s0 \<and> Priority_ok s0"
proof -
  obtain q where "enqueue_all (Priority_Init Simulator_ArrivalTime_Compare) ps = Some q" "pq_ok q"
    "compare q = Simulator_ArrivalTime_Compare"
    using enqueue_all_ok[OF pq_ok_Init, of Simulator_ArrivalTime_Compare ps]
    by (auto simp: Priority_Init_def)
  then show ?thesis using pq_ok_Init assms
    by (simp add: Simulator_GenerateProcess_def Simulator_Init_Priority_def Simulator_Init_def
        Priority_ok_def queues_ok_def) (simp add: Priority_Init_def)
qed

lemma FCFS_head_ok:
  assumes "Simulator_GenerateProcess (Simulator_Init_Queue flg) ps = Some s0"
    "loop_head (FCFS_body R) s0 n = Some s"
  shows "Queue_ok s"
proof -
  have "Queue_ok s0" using Generate_Queue_ok[of flg ps] assms(1) by auto
  then show ?thesis
    using loop_head_ok[where I = Queue_ok and body = "FCFS_body R", OF _ _ _ assms(2)] FCFS_body_ok
    by simp
qed

lemma RR_head_ok:
  assumes "Simulator_GenerateProcess (Simulator_Init_Queue flg) ps = Some s0"
    "RoundRobin_head R s0 0 n = Some (s, tq)"
  shows "Queue_ok s"
proof -
  have "Queue_ok s0" using Generate_Queue_ok[of flg ps] assms(1) by auto
  then show ?thesis using RoundRobin_head_ok assms(2) by blast
qed

lemma NonPreemptive_head_ok:
  assumes "cmp = SJF_Compare \<or> cmp = Priority_Compare"
    "Simulator_GenerateProcess (Simulator_Init_Priority flg cmp) ps = Some s0"
    "loop_head (NonPreemptive_body R) s0 n = Some s"
  shows "Priority_ok s"
proof -
  have "Priority_ok s0" using Generate_Priority_ok[OF assms(1), of flg ps] assms(2) by auto
  then show ?thesis
    using loop_head_ok[where I = Priority_ok and body = "NonPreemptive_body R", OF _ _ _ assms(3)]
      NonPreemptive_body_ok by simp
qed

lemma Preemptive_head_ok:
  assumes "cmp = SJF_Compare \<or> cmp = Priority_Compare"
    "Simulator_GenerateProcess (Simulator_Init_Priority flg cmp) ps = Some s0"
    "loop_head (Preemptive_body R) s0 n = Some s"
  shows "Priority_ok s"
proof -
  have "Priority_ok s0" using Generate_Priority_ok[OF assms(1), of flg ps] assms(2) by auto
  then show ?thesis
    using loop_head_ok[where I = Priority_ok and body = "Preemptive_body R", OF _ _ _ assms(3)]
      Preemptive_body_ok by simp
qed

lemma io_positive_no_wrap:
  "io_burst_time (p :: Process_t) \<noteq> 0 \<Longrightarrow>
     1 \<le> unat (io_burst_time p) \<and> unat (io_burst_time p - 1) = unat (io_burst_time p) - 1"
  by (simp add: unat_minus_one unat_gt_0 Suc_leI)

lemma wio_generate:
  "\<exists>s0. Simulator_GenerateProcess (Simulator_Init_Queue 1) [wio_P] = Some s0
     \<and> loop_head (FCFS_body odd_rand) s0 1 = Some wio_tick1"
  by (simp add: sim_defs Simulator_Probability_odd wio_P_def wio_tick1_def single_def)

lemma wio_before_IO: "Queue_before_IO wio_tick1 = Some wio_tick1"
  by (simp add: sim_defs wio_P_def wio_tick1_def single_def)

lemma Simulator_FCFS_head:
  "loop_head (FCFS_body R) s0 n = Some s \<Longrightarrow> Simulator_FCFS R s0 = Simulator_FCFS R s"
proof (induction n arbitrary: s0)
  case 0
  then show ?case by simp
next
  case (Suc n)
  then show ?case
    by (subst Simulator_FCFS.simps) (auto split: option.splits if_splits)
qed

lemma Simulator_NonPreemptiveSJF_head:
  "loop_head (NonPreemptive_body R) s0 n = Some s \<Longrightarrow>
     Simulator_NonPreemptiveSJF R s0 = Simulator_NonPreemptiveSJF R s"
proof (induction n arbitrary: s0)
  case 0
  then show ?case by simp
next
  case (Suc n)
  then show ?case
    by (subst Simulator_NonPreemptiveSJF.simps) (auto split: option.splits if_splits)
qed

lemma Simulator_NonPreemptivePriority_head:
  "loop_head (NonPreemptive_body R) s0 n = Some s \<Longrightarrow>
     Simulator_NonPreemptivePriority R s0 = Simulator_NonPreemptivePriority R s"
proof (induction n arbitrary: s0)
  case 0
  then show ?case by simp
next
  case (Suc n)
  then show ?case
    by (subst Simulator_NonPreemptivePriority.simps) (auto split: option.splits if_splits)
qed

lemma Simulator_PreemptiveSJF_head:
  "loop_head (Preemptive_body R) s0 n = Some s \<Longrightarrow>
     Simulator_PreemptiveSJF R s0 = Simulator_PreemptiveSJF R s"
proof (induction n arbitrary: s0)
  case 0
  then show ?case by simp
next
  case (Suc n)
  then show ?case
    by (subst Simulator_PreemptiveSJF.simps) (auto split: option.splits if_splits)
qed

lemma Simulator_PreemptivePriority_head:
  "loop_head (Preemptive_body R) s0 n = Some s \<Longrightarrow>
     Simulator_PreemptivePriority R s0 = Simulator_PreemptivePriority R s"
proof (induction n arbitrary: s0)
  case 0
  then show ?case by simp
next
  case (Suc n)
  then show ?case
    by (subst Simulator_PreemptivePriority.simps) (auto split: option.splits if_splits)
qed

lemma RoundRobin_loop_head:
  "RoundRobin_head R s0 tq0 n = Some (s, tq) \<Longrightarrow> RoundRobin_loop R s0 tq0 = RoundRobin_loop R s tq"
proof (induction n arbitrary: s0 tq0)
  case 0
  then show ?case by simp
next
  case (Suc n)
  then show ?case
    by (subst RoundRobin_loop.simps) (auto split: option.splits if_splits)
qed


lemma IO_Priority_loop_spec:
  "count (waiting_queue s) = n \<Longrightarrow> pq_ok (waiting_queue s) \<Longrightarrow> compare (waiting_queue s) = IO_Burst_Compare \<Longrightarrow>
    pq_ok (ready_queue s) \<Longrightarrow> swo (compare (ready_queue s)) \<Longrightarrow>
    pq_ok tmp \<Longrightarrow> compare tmp = IO_Burst_Compare \<Longrightarrow>
    \<exists>ps s' tmp'. drain (waiting_queue s) = Some ps \<and> IO_Priority_loop R s tmp = Some (s', tmp')
      \<and> mset ps = procs (top (waiting_queue s)) \<and> length ps = n
      \<and> procs (top (ready_queue s')) = procs (top (ready_queue s))
           + mset (map fst (filter interrupted (zip ps (trials R (rand_calls s) (length ps)))))
      \<and> pq_ok (ready_queue s') \<and> compare (ready_queue s') = compare (ready_queue s)
      \<and> procs (top tmp') = procs (top tmp)
           + mset (map fst (filter (\<lambda>d. \<not> interrupted d) (zip ps (trials R (rand_calls s) (length ps)))))
      \<and> pq_ok tmp' \<and> compare tmp' = IO_Burst_Compare
      \<and> count (waiting_queue s') = 0 \<and> rand_calls s' = rand_calls s + 100 * length ps"
proof (induction n arbitrary: s tmp)
  case 0
  then have "top (waiting_queue s) = Null" by (simp add: pq_ok_def shape_def)
  then show ?case using 0 by (simp add: drain.simps IO_Priority_loop.simps)
next
  case (Suc n)
  have swo: "swo (compare (waiting_queue s))" using Suc.prems swo_IO by simp
  have ne: "count (waiting_queue s) \<noteq> 0" using Suc.prems by simp
  obtain q' x where d: "Priority_Dequeue (waiting_queue s) = Some q'" "pq_ok q'"
    "Suc (count q') = count (waiting_queue s)" "compare q' = compare (waiting_queue s)"
    "Priority_Top (waiting_queue s) = Some x" "procs (top (waiting_queue s)) = procs (top q') + {#x#}"
    using Priority_Dequeue_ok[OF swo Suc.prems(2) ne] by blast
  obtain fired k where pr: "Simulator_Probability R (rand_calls s) = (fired, k)" by fastforce
  have k: "k = rand_calls s + 100" "fired = trial_fires R (rand_calls s)"
    using pr by (simp_all add: Simulator_Probability_eq)
  have cq: "count q' = n" "compare q' = IO_Burst_Compare" using d Suc.prems by auto
  show ?case
  proof (cases "fired \<and> 1 < cpu_burst_time x")
    case True
    obtain rq where e: "Priority_Enqueue (ready_queue s) x = Some rq" "pq_ok rq"
      "compare rq = compare (ready_queue s)" "procs (top rq) = procs (top (ready_queue s)) + {#x#}"
      using Priority_Enqueue_ok[OF Suc.prems(5,4), of x] by auto
    define s1 where "s1 = s \<lparr> rand_calls := k, waiting_queue := q', ready_queue := rq \<rparr>"
    have step: "IO_Priority_loop R s tmp = IO_Priority_loop R s1 tmp"
      using ne d pr True e(1) by (subst IO_Priority_loop.simps) (simp add: s1_def)
    obtain ps s' tmp' where ih: "drain (waiting_queue s1) = Some ps" "IO_Priority_loop R s1 tmp = Some (s', tmp')"
      "mset ps = procs (top (waiting_queue s1))" "length ps = n"
      "procs (top (ready_queue s')) = procs (top (ready_queue s1))
           + mset (map fst (filter interrupted (zip ps (trials R (rand_calls s1) (length ps)))))"
      "pq_ok (ready_queue s')" "compare (ready_queue s') = compare (ready_queue s1)"
      "procs (top tmp') = procs (top tmp)
           + mset (map fst (filter (\<lambda>d. \<not> interrupted d) (zip ps (trials R (rand_calls s1) (length ps)))))"
      "pq_ok tmp'" "compare tmp' = IO_Burst_Compare"
      "count (waiting_queue s') = 0" "rand_calls s' = rand_calls s1 + 100 * length ps"
      using Suc.IH[of s1 tmp] d(2) cq e(2,3) Suc.prems(5,6,7) by (auto simp: s1_def)
    have dr: "drain (waiting_queue s) = Some (x # ps)"
      using ne d ih(1) by (subst drain.simps) (simp add: s1_def)
    have tr: "trials R (rand_calls s) (length (x # ps)) = fired # trials R (rand_calls s1) (length ps)"
      using k by (simp add: s1_def)
    have "IO_Priority_loop R s tmp = Some (s', tmp')" using step ih(2) by simp
    moreover have "mset (x # ps) = procs (top (waiting_queue s))" using ih(3) d(6) by (simp add: s1_def)
    moreover have "procs (top (ready_queue s')) = procs (top (ready_queue s))
           + mset (map fst (filter interrupted (zip (x # ps) (trials R (rand_calls s) (length (x # ps))))))"
      unfolding tr using ih(5) e(4) True by (simp add: interrupted_def s1_def)
    moreover have "procs (top tmp') = procs (top tmp)
           + mset (map fst (filter (\<lambda>d. \<not> interrupted d) (zip (x # ps) (trials R (rand_calls s) (length (x # ps))))))"
      unfolding tr using ih(8) True by (simp add: interrupted_def)
    moreover have "rand_calls s' = rand_calls s + 100 * length (x # ps)" using ih(12) k(1) by (simp add: s1_def)
    moreover have "compare (ready_queue s') = compare (ready_queue s)" using ih(7) e(3) by (simp add: s1_def)
    moreover have "length (x # ps) = Suc n" using ih(4) by simp
    ultimately show ?thesis using dr ih(6,9,10,11) by blast
  next
    case False
    obtain tmp1 where e: "Priority_Enqueue tmp x = Some tmp1" "pq_ok tmp1" "compare tmp1 = compare tmp"
      "procs (top tmp1) = procs (top tmp) + {#x#}"
      using Priority_Enqueue_ok[of tmp x] Suc.prems(6,7) swo_IO by auto
    define s1 where "s1 = s \<lparr> rand_calls := k, waiting_queue := q' \<rparr>"
    have step: "IO_Priority_loop R s tmp = IO_Priority_loop R s1 tmp1"
      using ne d pr False e(1) by (subst IO_Priority_loop.simps) (auto simp add: s1_def)
    obtain ps s' tmp' where ih: "drain (waiting_queue s1) = Some ps" "IO_Priority_loop R s1 tmp1 = Some (s', tmp')"
      "mset ps = procs (top (waiting_queue s1))" "length ps = n"
      "procs (top (ready_queue s')) = procs (top (ready_queue s1))
           + mset (map fst (filter interrupted (zip ps (trials R (rand_calls s1) (length ps)))))"
      "pq_ok (ready_queue s')" "compare (ready_queue s') = compare (ready_queue s1)"
      "procs (top tmp') = procs (top tmp1)
           + mset (map fst (filter (\<lambda>d. \<not> interrupted d) (zip ps (trials R (rand_calls s1) (length ps)))))"
      "pq_ok tmp'" "compare tmp' = IO_Burst_Compare"
      "count (waiting_queue s') = 0" "rand_calls s' = rand_calls s1 + 100 * length ps"
      using Suc.IH[of s1 tmp1] d(2) cq e(2,3) Suc.prems(4,5,7) by (auto simp: s1_def)
    have dr: "drain (waiting_queue s) = Some (x # ps)"
      using ne d ih(1) by (subst drain.simps) (simp add: s1_def)
    have tr: "trials R (rand_calls s) (length (x # ps)) = fired # trials R (rand_calls s1) (length ps)"
      using k by (simp add: s1_def)
    have "IO_Priority_loop R s tmp = Some (s', tmp')" using step ih(2) by simp
    moreover have "mset (x # ps) = procs (top (waiting_queue s))" using ih(3) d(6) by (simp add: s1_def)
    moreover have "procs (top (ready_queue s')) = procs (top (ready_queue s))
           + mset (map fst (filter interrupted (zip (x # ps) (trials R (rand_calls s) (length (x # ps))))))"
      unfolding tr using ih(5) False by (simp add: interrupted_def s1_def)
    moreover have "procs (top tmp') = procs (top tmp)
           + mset (map fst (filter (\<lambda>d. \<not> interrupted d) (zip (x # ps) (trials R (rand_calls s) (length (x # ps))))))"
      unfolding tr using ih(8) e(4) False by (simp add: interrupted_def)
    moreover have "rand_calls s' = rand_calls s + 100 * length (x # ps)" using ih(12) k(1) by (simp add: s1_def)
    moreover have "compare (ready_queue s') = compare (ready_queue s)" using ih(7) by (simp add: s1_def)
    moreover have "length (x # ps) = Suc n" using ih(4) by simp
    ultimately show ?thesis using dr ih(6,9,10,11) by blast
  qed
qed

lemma trial_first_rand: "trial_fires first_rand 0" "\<not> trial_fires first_rand 100"
proof -
  have "filter (\<lambda>j. first_rand (0 + j) mod 2 \<noteq> 0) [0..<100] = [0..<100]"
    by (rule filter_True) (simp add: first_rand_def)
  then show "trial_fires first_rand 0" by (simp add: trial_fires_def)
  have "filter (\<lambda>j. first_rand (100 + j) mod 2 \<noteq> 0) [0..<100] = []"
    by (simp add: first_rand_def)
  then show "\<not> trial_fires first_rand 100" by (simp add: trial_fires_def)
qed

lemma pq_ok_io_waiting: "pq_ok io_waiting"
proof -
  have "shp 1 (Suc 2 - 2 ^ 1) (Node (Node Null io_Q Null) io_P Null)" by simp
  then have "\<exists>h. 2 ^ h \<le> (2::nat) \<and> (2::nat) < 2 ^ Suc h \<and> shp h (Suc 2 - 2 ^ h) (Node (Node Null io_Q Null) io_P Null)"
    by (intro exI[of _ 1]) simp
  then have "shape 2 (Node (Node Null io_Q Null) io_P Null)" by (simp add: shape_def)
  then show ?thesis by (simp add: pq_ok_def io_waiting_def IO_Burst_Compare_def io_P_def io_Q_def)
qed

lemma drain_io_waiting: "drain io_waiting = Some [io_P, io_Q]"
  by (simp add: drain.simps io_waiting_def Priority_Dequeue_def find_pos.simps)


lemma two_bodies:
  "\<exists>s0 s1. Simulator_GenerateProcess (Simulator_Init_Queue 1) [two_P1, two_P2] = Some s0
     \<and> FCFS_body no_rand s0 = Some (False, s1)
     \<and> FCFS_body no_rand (s1 \<lparr> elapsed_time := elapsed_time s1 + 1 \<rparr>)
         = Some (False, two_tick2 \<lparr> elapsed_time := 1 \<rparr>)"
  by (simp add: sim_defs Simulator_Probability_no two_P1_def two_P2_def two_tick2_def)

lemma two_generate:
  "\<exists>s0. Simulator_GenerateProcess (Simulator_Init_Queue 1) [two_P1, two_P2] = Some s0
     \<and> loop_head (FCFS_body no_rand) s0 2 = Some two_tick2"
proof -
  obtain s0 s1 where b: "Simulator_GenerateProcess (Simulator_Init_Queue 1) [two_P1, two_P2] = Some s0"
    "FCFS_body no_rand s0 = Some (False, s1)"
    "FCFS_body no_rand (s1 \<lparr> elapsed_time := elapsed_time s1 + 1 \<rparr>)
         = Some (False, two_tick2 \<lparr> elapsed_time := 1 \<rparr>)"
    using two_bodies by blast
  have n: "(two_tick2 \<lparr> elapsed_time := 1 \<rparr>) \<lparr> elapsed_time := elapsed_time (two_tick2 \<lparr> elapsed_time := 1 \<rparr>) + 1 \<rparr> = two_tick2"
    by (simp add: two_tick2_def)
  have "loop_head (FCFS_body no_rand) s0 (Suc (Suc 0)) = Some two_tick2"
    using b(2,3) n by simp
  then have "loop_head (FCFS_body no_rand) s0 2 = Some two_tick2"
    by (simp only: numeral_2_eq_2)
  then show ?thesis using b(1) by blast
qed

lemma two_before_IO: "Queue_before_IO two_tick2 = Some two_tick2"
  by (simp add: sim_defs two_P1_def two_P2_def two_tick2_def)

lemma two_Process_IO:
  "Simulator_Process_IO (top (waiting_queue two_tick2))
     = Node (Node Null (two_P1 \<lparr> cpu_burst_time := 1, io_burst_time := 3, turnaround_time := 3 \<rparr>) Null)
            (two_P2 \<lparr> cpu_burst_time := 1, io_burst_time := 2, waiting_time := 1, turnaround_time := 3 \<rparr>)
            Null"
  by (simp add: two_P1_def two_P2_def two_tick2_def)



lemma pq_calls_ok:
  "swo (compare q) \<Longrightarrow> pq_ok q \<Longrightarrow>
     \<exists>q'. pq_calls q cs = Some q' \<and> pq_ok q' \<and> compare q' = compare q"
proof (induction cs arbitrary: q)
  case Nil
  then show ?case by simp
next
  case (Cons c cs)
  show ?case
  proof (cases c)
    case (Enqueue_call p)
    obtain q1 where q1: "Priority_Enqueue q p = Some q1" "pq_ok q1" "compare q1 = compare q"
      using Priority_Enqueue_ok[OF Cons.prems, of p] by blast
    then obtain q' where "pq_calls q1 cs = Some q'" "pq_ok q'" "compare q' = compare q1"
      using Cons.IH[of q1] Cons.prems(1) by auto
    then show ?thesis using q1 Enqueue_call by simp
  next
    case Dequeue_call
    obtain q1 where q1: "Priority_Dequeue q = Some q1" "pq_ok q1" "compare q1 = compare q"
    proof (cases "count q = 0")
      case True
      then show ?thesis using that[of q] Cons.prems(2) Priority_Dequeue_empty by simp
    next
      case False
      then show ?thesis using Priority_Dequeue_ok[OF Cons.prems False] that by blast
    qed
    then obtain q' where "pq_calls q1 cs = Some q'" "pq_ok q'" "compare q' = compare q1"
      using Cons.IH[of q1] Cons.prems(1) by auto
    then show ?thesis using q1 Dequeue_call by simp
  qed
qed

lemma pq_calls_Init:
  assumes "swo cmp"
  shows "\<exists>q. pq_calls (Priority_Init cmp) cs = Some q \<and> heap_ok cmp (top q)"
proof -
  have "swo (compare (Priority_Init cmp))" using assms by (simp add: Priority_Init_def)
  then obtain q where "pq_calls (Priority_Init cmp) cs = Some q" "pq_ok q"
    "compare q = compare (Priority_Init cmp)"
    using pq_calls_ok[OF _ pq_ok_Init] by blast
  then show ?thesis by (auto simp: pq_ok_def Priority_Init_def)
qed

text \<open>
  C2. Whatever sequence of \<^verbatim>\<open>Priority_Enqueue\<close> and \<^verbatim>\<open>Priority_Dequeue\<close> calls is made
  on a queue initialised with one of the four comparators, no call dereferences
  \<^verbatim>\<open>NULL\<close>, and in the resulting tree no child compares strictly ahead of its parent.
\<close>

theorem heap_property_after_calls:
  "(\<exists>q. pq_calls (Priority_Init SJF_Compare) cs = Some q \<and> heap_ok SJF_Compare (top q))
   \<and> (\<exists>q. pq_calls (Priority_Init Priority_Compare) cs = Some q \<and> heap_ok Priority_Compare (top q))
   \<and> (\<exists>q. pq_calls (Priority_Init IO_Burst_Compare) cs = Some q \<and> heap_ok IO_Burst_Compare (top q))
   \<and> (\<exists>q. pq_calls (Priority_Init Simulator_ArrivalTime_Compare) cs = Some q
         \<and> heap_ok Simulator_ArrivalTime_Compare (top q))"
  using pq_calls_Init[OF swo_SJF] pq_calls_Init[OF swo_Priority] pq_calls_Init[OF swo_IO]
    pq_calls_Init[OF swo_Arrival] by blast


lemma queue_calls_fifo:
  "q_count q = length (front q) \<Longrightarrow>
     \<exists>q' out'. queue_calls q out cs = Some (q', out') \<and> q_count q' = length (front q')
        \<and> out' @ front q' = out @ front q @ enqueued cs"
proof (induction cs arbitrary: q out)
  case Nil
  then show ?case by simp
next
  case (Cons c cs)
  show ?case
  proof (cases c)
    case (QEnqueue p)
    have "q_count (Queue_Enqueue q p) = length (front (Queue_Enqueue q p))"
      and "front (Queue_Enqueue q p) = front q @ [p]"
      using Cons.prems by (auto simp: Queue_Enqueue_def)
    then show ?thesis using Cons.IH[of "Queue_Enqueue q p" out] QEnqueue by auto
  next
    case QDequeue
    show ?thesis
    proof (cases "front q")
      case Nil
      then have "Queue_Dequeue q = Some q" "Queue_Front q = None"
        using Cons.prems by (auto simp: Queue_Dequeue_def Queue_Front_def)
      then show ?thesis using Cons.IH[OF Cons.prems, of out] QDequeue by simp
    next
      case (Cons p rest)
      define q1 where "q1 = q \<lparr> q_count := q_count q - 1, front := rest \<rparr>"
      have d: "Queue_Dequeue q = Some q1" "Queue_Front q = Some p"
        using Cons Cons.prems by (auto simp: Queue_Dequeue_def Queue_Front_def q1_def)
      have "q_count q1 = length (front q1)" using Cons Cons.prems by (simp add: q1_def)
      then obtain q' out' where "queue_calls q1 (out @ [p]) cs = Some (q', out')"
        "q_count q' = length (front q')" "out' @ front q' = (out @ [p]) @ front q1 @ enqueued cs"
        using Cons.IH[of q1 "out @ [p]"] by blast
      then show ?thesis using d QDequeue Cons by (simp add: q1_def)
    qed
  qed
qed

text \<open>
  C8. For any sequence of \<^verbatim>\<open>Queue_Enqueue\<close> and \<^verbatim>\<open>Queue_Dequeue\<close> calls on a fresh
  queue, the processes removed so far followed by the processes still queued are the
  inserted processes in insertion order: removal is strictly first-in-first-out.
\<close>

theorem queue_fifo_order:
  "\<exists>q out. queue_calls Queue_Init [] cs = Some (q, out) \<and> out @ front q = enqueued cs"
  using queue_calls_fifo[of Queue_Init "[]" cs] by (auto simp: Queue_Init_def)


text \<open>
  C9. FCFS on the single process of Scenario A (CPU burst 5, no I/O, arrival 0, priority
  0), for every \<^verbatim>\<open>rand()\<close> sequence and every pid: the run returns; the state handed to
  \<^verbatim>\<open>Simulator_Eval\<close> holds the process terminated with waiting time 0 and turnaround
  time 5; and the run ends with \<open>elapsed_time = 4\<close> and \<open>idle_time = 0\<close>.
\<close>

theorem scenario_A_FCFS:
  "\<exists>s0 s' s.
     Simulator_GenerateProcess (Simulator_Init_Queue 1)
       [\<lparr> pid = i, cpu_burst_time = 5, io_burst_time = 0, arrival_time = 0, priority = 0,
          waiting_time = 0, turnaround_time = 0 \<rparr>] = Some s0
     \<and> Simulator_FCFS R s0 = Some s \<and> Simulator_Eval s' = Some s
     \<and> top (terminated_processes s')
         = Node Null \<lparr> pid = i, cpu_burst_time = 0, io_burst_time = 0, arrival_time = 0, priority = 0,
                       waiting_time = 0, turnaround_time = 5 \<rparr> Null
     \<and> elapsed_time s = 4 \<and> idle_time s = 0 \<and> avg_waiting_time s = Some 0
     \<and> avg_turnaround_time s = Some 5 \<and> max_waiting_time s = 0"
proof -
  obtain s0 where s0: "Simulator_GenerateProcess (Simulator_Init_Queue 1) [scenario_A i] = Some s0"
    and r: "Simulator_FCFS R s0 = Some (scenario_A_final i)"
    using scenario_A_run by blast
  have t: "top (terminated_processes (scenario_A_terminated i))
         = Node Null \<lparr> pid = i, cpu_burst_time = 0, io_burst_time = 0, arrival_time = 0, priority = 0,
                       waiting_time = 0, turnaround_time = 5 \<rparr> Null"
    by (simp add: scenario_A_terminated_def scenario_A_def)
  have f: "elapsed_time (scenario_A_final i) = 4" "idle_time (scenario_A_final i) = 0"
    "avg_waiting_time (scenario_A_final i) = Some 0" "avg_turnaround_time (scenario_A_final i) = Some 5"
    "max_waiting_time (scenario_A_final i) = 0"
    by (simp_all add: scenario_A_final_def scenario_A_running_def)
  show ?thesis using s0 r scenario_A_last(2) t f unfolding scenario_A_def by blast
qed


text \<open>
  C1 fails under Preemptive SJF. Process 2 arrives at tick 1 and terminates in tick 2,
  two ticks later, with \<open>turnaround_time = 3\<close>: in tick 1 it is aged in the ready queue
  and then, preempting process 1 inside \<^verbatim>\<open>Simulator_CPU_Burst_Preemptive\<close>, also runs.
\<close>

theorem preempted_turnaround_miscounted:
  "Simulator_GenerateProcess (Simulator_Init_Priority 3 SJF_Compare) [pre_P1, pre_P2] = Some pre_tick0
   \<and> Preemptive_body no_rand pre_tick0 = Some (False, pre_tick1 \<lparr> elapsed_time := 0 \<rparr>)
   \<and> Preemptive_body no_rand pre_tick1 = Some (False, pre_tick2 \<lparr> elapsed_time := 1 \<rparr>)
   \<and> top (terminated_processes pre_tick2) = Null
   \<and> Preemptive_body no_rand pre_tick2 = Some (False, pre_tick2_end)
   \<and> elapsed_time pre_tick2_end = 2
   \<and> top (terminated_processes pre_tick2_end)
       = Node Null \<lparr> pid = 2, cpu_burst_time = 0, io_burst_time = 0, arrival_time = 1, priority = 0,
                     waiting_time = 1, turnaround_time = 3 \<rparr> Null"
  using pre_generate pre_body0 [of no_rand] pre_body1 [of no_rand] pre_body2 [of no_rand]
  by (simp add: pre_defs Priority_Init_def)

text \<open>
  C3 fails on the same run. At tick 1 process 2 arrives while process 1 holds the CPU.
  The Dispatch sub-step (\<^verbatim>\<open>Simulator_LoadProcess_Priority\<close>) leaves process 1 in the CPU
  slot although process 2, now the head of the ready queue, compares ahead of it; the
  aging then counts process 2 as waiting, and after the I/O sub-steps the slot is
  unchanged. Only the first statement of \<^verbatim>\<open>Simulator_CPU_Burst_Preemptive\<close> pushes
  process 1 back and gives the CPU to process 2, which then runs in that same tick.
\<close>

theorem preemption_not_before_aging:
  "Preemptive_body no_rand pre_tick0 = Some (False, pre_tick1 \<lparr> elapsed_time := 0 \<rparr>)
   \<and> Simulator_LoadReadyQueue_Priority pre_tick1
       = Some (pre_state (Priority_Init Simulator_ArrivalTime_Compare) (single SJF_Compare pre_P2)
                 (Priority_Init Simulator_ArrivalTime_Compare)
                 (Some (pre_P1 \<lparr> cpu_burst_time := 4, turnaround_time := 1 \<rparr>)) 1)
   \<and> Simulator_LoadProcess_Priority
         (pre_state (Priority_Init Simulator_ArrivalTime_Compare) (single SJF_Compare pre_P2)
            (Priority_Init Simulator_ArrivalTime_Compare)
            (Some (pre_P1 \<lparr> cpu_burst_time := 4, turnaround_time := 1 \<rparr>)) 1)
       = Some (pre_state (Priority_Init Simulator_ArrivalTime_Compare) (single SJF_Compare pre_P2)
                 (Priority_Init Simulator_ArrivalTime_Compare)
                 (Some (pre_P1 \<lparr> cpu_burst_time := 4, turnaround_time := 1 \<rparr>)) 1)
   \<and> SJF_Compare pre_P2 (pre_P1 \<lparr> cpu_burst_time := 4, turnaround_time := 1 \<rparr>)
   \<and> Priority_before_IO pre_tick1 = Some pre_tick1_aged
   \<and> Priority_before_CPU no_rand pre_tick1 = Some pre_tick1_aged
   \<and> cur_cpu_burst pre_tick1_aged = Some (pre_P1 \<lparr> cpu_burst_time := 4, turnaround_time := 1 \<rparr>)
   \<and> top (ready_queue pre_tick1_aged)
       = Node Null (pre_P2 \<lparr> waiting_time := 1, turnaround_time := 1 \<rparr>) Null
   \<and> compare (ready_queue pre_tick1_aged) (pre_P2 \<lparr> waiting_time := 1, turnaround_time := 1 \<rparr>)
         (pre_P1 \<lparr> cpu_burst_time := 4, turnaround_time := 1 \<rparr>)
   \<and> Preemptive_decision pre_tick1_aged = Some pre_tick1_preempted
   \<and> cur_cpu_burst pre_tick1_preempted = Some (pre_P2 \<lparr> waiting_time := 1, turnaround_time := 1 \<rparr>)
   \<and> top (ready_queue pre_tick1_preempted)
       = Node Null (pre_P1 \<lparr> cpu_burst_time := 4, turnaround_time := 1 \<rparr>) Null
   \<and> Simulator_CPU_Burst_Preemptive no_rand pre_tick1_aged
       = Some (False, pre_tick2 \<lparr> elapsed_time := 1 \<rparr>)
   \<and> Preemptive_body no_rand pre_tick1 = Some (False, pre_tick2 \<lparr> elapsed_time := 1 \<rparr>)
   \<and> cur_cpu_burst pre_tick2
       = Some (pre_P2 \<lparr> cpu_burst_time := 1, waiting_time := 1, turnaround_time := 2 \<rparr>)"
proof -
  have b: "Simulator_CPU_Burst_Preemptive no_rand pre_tick1_aged
       = Some (False, pre_tick2 \<lparr> elapsed_time := 1 \<rparr>)"
    using pre_body1 [of no_rand] pre_before_CPU1 [of no_rand] by (simp add: Preemptive_body_def)
  have c: "SJF_Compare pre_P2 (pre_P1 \<lparr> cpu_burst_time := 4, turnaround_time := 1 \<rparr>)"
    "cur_cpu_burst pre_tick1_aged = Some (pre_P1 \<lparr> cpu_burst_time := 4, turnaround_time := 1 \<rparr>)"
    "top (ready_queue pre_tick1_aged)
       = Node Null (pre_P2 \<lparr> waiting_time := 1, turnaround_time := 1 \<rparr>) Null"
    "compare (ready_queue pre_tick1_aged) (pre_P2 \<lparr> waiting_time := 1, turnaround_time := 1 \<rparr>)
         (pre_P1 \<lparr> cpu_burst_time := 4, turnaround_time := 1 \<rparr>)"
    "cur_cpu_burst pre_tick1_preempted = Some (pre_P2 \<lparr> waiting_time := 1, turnaround_time := 1 \<rparr>)"
    "top (ready_queue pre_tick1_preempted)
       = Node Null (pre_P1 \<lparr> cpu_burst_time := 4, turnaround_time := 1 \<rparr>) Null"
    "cur_cpu_burst pre_tick2
       = Some (pre_P2 \<lparr> cpu_burst_time := 1, waiting_time := 1, turnaround_time := 2 \<rparr>)"
    by (simp_all add: pre_defs SJF_Compare_def)
  show ?thesis
    using pre_body0 [of no_rand] pre_dispatch1 pre_before_IO1 pre_before_CPU1 [of no_rand]
      pre_decision1 pre_body1 [of no_rand] b c
    by blast
qed

text \<open>
  C4 fails for the summary table. After the FCFS run of Scenario A (\<open>elapsed_time = 4\<close>,
  \<open>idle_time = 0\<close>) \<^verbatim>\<open>Simulator_Eval\<close> computes the utilization \<open>5 / 4\<close>, and the row that
  \<^verbatim>\<open>Simulator_Terminate\<close> prints holds \<open>4 / 4\<close>.
\<close>

theorem table_utilization_differs:
  "\<exists>s0. Simulator_GenerateProcess (Simulator_Init_Queue 1) [scenario_A i] = Some s0
     \<and> Simulator_FCFS R s0 = Some (scenario_A_final i)
     \<and> Simulator_Eval (scenario_A_terminated i) = Some (scenario_A_final i)
     \<and> elapsed_time (scenario_A_final i) = 4
     \<and> Eval_CPU_utilization (scenario_A_terminated i) = Some (5 / 4)
     \<and> Terminate_CPU_Util (scenario_A_final i) = Some 1"
proof -
  have "Eval_CPU_utilization (scenario_A_terminated i) = Some (5 / 4)"
    "Terminate_CPU_Util (scenario_A_final i) = Some 1"
    "elapsed_time (scenario_A_final i) = 4"
    by (simp_all add: Eval_CPU_utilization_def Terminate_CPU_Util_def double_div_def double_of_def
        scenario_A_terminated_def scenario_A_final_def scenario_A_running_def)
  then show ?thesis using scenario_A_run [of i R] scenario_A_last(2) by blast
qed

text \<open>
  C5 fails. A single process with CPU burst 1 terminates in tick 0, so
  \<^verbatim>\<open>Simulator_Eval\<close> runs with \<open>elapsed_time = 0\<close> and divides by it: the utilization is
  no number, not zero, and neither is the one of the summary table.
\<close>

theorem eval_divides_by_zero:
  "\<exists>s0. Simulator_GenerateProcess (Simulator_Init_Queue 1) [instant_P i] = Some s0
     \<and> Simulator_FCFS R s0 = Some (instant_final i)
     \<and> Simulator_Eval (instant_terminated i) = Some (instant_final i)
     \<and> elapsed_time (instant_terminated i) = 0
     \<and> Eval_CPU_utilization (instant_terminated i) = None
     \<and> Terminate_CPU_Util (instant_final i) = None"
proof -
  have "Eval_CPU_utilization (instant_terminated i) = None"
    "Terminate_CPU_Util (instant_final i) = None"
    "elapsed_time (instant_terminated i) = 0"
    by (simp_all add: Eval_CPU_utilization_def Terminate_CPU_Util_def double_div_def double_of_def
        instant_terminated_def instant_final_def)
  then show ?thesis using instant_run [of i R] instant_Eval by blast
qed


text \<open>
  C6. \<^verbatim>\<open>Simulator_Process_IO_Queue\<close>, and \<^verbatim>\<open>Simulator_Process_IO_Priority\<close> of the four
  policies with a heap as ready queue, hand every process of the waiting queue one
  random trial, in the order in which the queue hands the processes out; each trial
  consumes the next 100 \<^verbatim>\<open>rand()\<close> samples and fires iff at least 50 of them are odd.
  The processes whose trial fired and whose \<open>cpu_burst_time\<close> exceeds 1 are moved to the
  ready queue (appended in that order to the FIFO queue, enqueued in the heap); all the
  others, and only they, make up the new waiting queue, a heap under
  \<^verbatim>\<open>IO_Burst_Compare\<close>.
\<close>

theorem interrupt_resolution:
  "(pq_ok (waiting_queue s) \<and> compare (waiting_queue s) = IO_Burst_Compare
      \<and> q_count (ready_queue s) = length (front (ready_queue s))
    \<longrightarrow> (\<exists>ps s'. drain (waiting_queue s) = Some ps \<and> mset ps = procs (top (waiting_queue s))
          \<and> Simulator_Process_IO_Queue R s = Some s'
          \<and> front (ready_queue s') = front (ready_queue s)
               @ map fst (filter interrupted (zip ps (trials R (rand_calls s) (length ps))))
          \<and> procs (top (waiting_queue s'))
               = mset (map fst (filter (\<lambda>d. \<not> interrupted d)
                                  (zip ps (trials R (rand_calls s) (length ps)))))
          \<and> pq_ok (waiting_queue s') \<and> compare (waiting_queue s') = IO_Burst_Compare
          \<and> rand_calls s' = rand_calls s + 100 * length ps))
   \<and> (pq_ok (waiting_queue t) \<and> compare (waiting_queue t) = IO_Burst_Compare
      \<and> pq_ok (ready_queue t)
      \<and> (compare (ready_queue t) = SJF_Compare \<or> compare (ready_queue t) = Priority_Compare)
    \<longrightarrow> (\<exists>ps t'. drain (waiting_queue t) = Some ps \<and> mset ps = procs (top (waiting_queue t))
          \<and> Simulator_Process_IO_Priority R t = Some t'
          \<and> procs (top (ready_queue t')) = procs (top (ready_queue t))
               + mset (map fst (filter interrupted (zip ps (trials R (rand_calls t) (length ps)))))
          \<and> pq_ok (ready_queue t') \<and> compare (ready_queue t') = compare (ready_queue t)
          \<and> procs (top (waiting_queue t'))
               = mset (map fst (filter (\<lambda>d. \<not> interrupted d)
                                  (zip ps (trials R (rand_calls t) (length ps)))))
          \<and> pq_ok (waiting_queue t') \<and> compare (waiting_queue t') = IO_Burst_Compare
          \<and> rand_calls t' = rand_calls t + 100 * length ps))
   \<and> Simulator_Probability R k = (trial_fires R k, k + 100)"
proof (intro conjI impI)
  assume a: "pq_ok (waiting_queue s) \<and> compare (waiting_queue s) = IO_Burst_Compare
      \<and> q_count (ready_queue s) = length (front (ready_queue s))"
  show "\<exists>ps s'. drain (waiting_queue s) = Some ps \<and> mset ps = procs (top (waiting_queue s))
          \<and> Simulator_Process_IO_Queue R s = Some s'
          \<and> front (ready_queue s') = front (ready_queue s)
               @ map fst (filter interrupted (zip ps (trials R (rand_calls s) (length ps))))
          \<and> procs (top (waiting_queue s'))
               = mset (map fst (filter (\<lambda>d. \<not> interrupted d)
                                  (zip ps (trials R (rand_calls s) (length ps)))))
          \<and> pq_ok (waiting_queue s') \<and> compare (waiting_queue s') = IO_Burst_Compare
          \<and> rand_calls s' = rand_calls s + 100 * length ps"
  proof (cases "count (waiting_queue s) = 0")
    case True
    then have "top (waiting_queue s) = Null" using a by (simp add: pq_ok_def shape_def)
    moreover have "drain (waiting_queue s) = Some []" using True by (simp add: drain.simps)
    moreover have "Simulator_Process_IO_Queue R s = Some s"
      using True by (simp add: Simulator_Process_IO_Queue_def Priority_IsEmpty_def)
    ultimately show ?thesis using a by simp
  next
    case False
    obtain ps s' tmp' where l: "drain (waiting_queue s) = Some ps"
      "IO_Queue_loop R s (Priority_Init IO_Burst_Compare) = Some (s', tmp')"
      "mset ps = procs (top (waiting_queue s))"
      "front (ready_queue s') = front (ready_queue s)
           @ map fst (filter interrupted (zip ps (trials R (rand_calls s) (length ps))))"
      "procs (top tmp') = procs (top (Priority_Init IO_Burst_Compare))
           + mset (map fst (filter (\<lambda>d. \<not> interrupted d) (zip ps (trials R (rand_calls s) (length ps)))))"
      "pq_ok tmp'" "compare tmp' = IO_Burst_Compare"
      "rand_calls s' = rand_calls s + 100 * length ps"
      using IO_Queue_loop_spec[where R = R and s = s and tmp = "Priority_Init IO_Burst_Compare",
          OF _ refl _ refl pq_ok_Init] a
      by (auto simp: Priority_Init_def)
    have "Simulator_Process_IO_Queue R s = Some (s' \<lparr> waiting_queue := tmp' \<rparr>)"
      using False l(2) by (simp add: Simulator_Process_IO_Queue_def Priority_IsEmpty_def)
    moreover have "procs (top tmp')
       = mset (map fst (filter (\<lambda>d. \<not> interrupted d) (zip ps (trials R (rand_calls s) (length ps)))))"
      using l(5) by (simp add: Priority_Init_def)
    ultimately show ?thesis using l(1,3,4,6,7,8) by simp
  qed
next
  assume a: "pq_ok (waiting_queue t) \<and> compare (waiting_queue t) = IO_Burst_Compare
      \<and> pq_ok (ready_queue t)
      \<and> (compare (ready_queue t) = SJF_Compare \<or> compare (ready_queue t) = Priority_Compare)"
  then have sw: "swo (compare (ready_queue t))" using swo_SJF swo_Priority by auto
  show "\<exists>ps t'. drain (waiting_queue t) = Some ps \<and> mset ps = procs (top (waiting_queue t))
          \<and> Simulator_Process_IO_Priority R t = Some t'
          \<and> procs (top (ready_queue t')) = procs (top (ready_queue t))
               + mset (map fst (filter interrupted (zip ps (trials R (rand_calls t) (length ps)))))
          \<and> pq_ok (ready_queue t') \<and> compare (ready_queue t') = compare (ready_queue t)
          \<and> procs (top (waiting_queue t'))
               = mset (map fst (filter (\<lambda>d. \<not> interrupted d)
                                  (zip ps (trials R (rand_calls t) (length ps)))))
          \<and> pq_ok (waiting_queue t') \<and> compare (waiting_queue t') = IO_Burst_Compare
          \<and> rand_calls t' = rand_calls t + 100 * length ps"
  proof (cases "count (waiting_queue t) = 0")
    case True
    then have "top (waiting_queue t) = Null" using a by (simp add: pq_ok_def shape_def)
    moreover have "drain (waiting_queue t) = Some []" using True by (simp add: drain.simps)
    moreover have "Simulator_Process_IO_Priority R t = Some t"
      using True by (simp add: Simulator_Process_IO_Priority_def Priority_IsEmpty_def)
    ultimately show ?thesis using a by simp
  next
    case False
    obtain ps t' tmp' where l: "drain (waiting_queue t) = Some ps"
      "IO_Priority_loop R t (Priority_Init IO_Burst_Compare) = Some (t', tmp')"
      "mset ps = procs (top (waiting_queue t))"
      "procs (top (ready_queue t')) = procs (top (ready_queue t))
           + mset (map fst (filter interrupted (zip ps (trials R (rand_calls t) (length ps)))))"
      "pq_ok (ready_queue t')" "compare (ready_queue t') = compare (ready_queue t)"
      "procs (top tmp') = procs (top (Priority_Init IO_Burst_Compare))
           + mset (map fst (filter (\<lambda>d. \<not> interrupted d) (zip ps (trials R (rand_calls t) (length ps)))))"
      "pq_ok tmp'" "compare tmp' = IO_Burst_Compare"
      "rand_calls t' = rand_calls t + 100 * length ps"
      using IO_Priority_loop_spec[where R = R and s = t and tmp = "Priority_Init IO_Burst_Compare",
          OF refl _ _ _ sw pq_ok_Init] a
      by (auto simp: Priority_Init_def)
    have "Simulator_Process_IO_Priority R t = Some (t' \<lparr> waiting_queue := tmp' \<rparr>)"
      using False l(2) by (simp add: Simulator_Process_IO_Priority_def Priority_IsEmpty_def)
    moreover have "procs (top tmp')
       = mset (map fst (filter (\<lambda>d. \<not> interrupted d) (zip ps (trials R (rand_calls t) (length ps)))))"
      using l(7) by (simp add: Priority_Init_def)
    ultimately show ?thesis using l(1,3,4,5,6,8,9,10) by simp
  qed
next
  show "Simulator_Probability R k = (trial_fires R k, k + 100)"
    by (rule Simulator_Probability_eq)
qed

theorem interrupt_resolution_witness:
  "pq_ok (waiting_queue io_example) \<and> compare (waiting_queue io_example) = IO_Burst_Compare
   \<and> q_count (ready_queue io_example) = length (front (ready_queue io_example))
   \<and> pq_ok (waiting_queue io_example_Priority)
   \<and> compare (waiting_queue io_example_Priority) = IO_Burst_Compare
   \<and> pq_ok (ready_queue io_example_Priority)
   \<and> compare (ready_queue io_example_Priority) = SJF_Compare
   \<and> drain io_waiting = Some [io_P, io_Q]
   \<and> trials first_rand 0 2 = [True, False]
   \<and> (\<exists>s'. Simulator_Process_IO_Queue first_rand io_example = Some s'
        \<and> front (ready_queue s') = [io_P] \<and> procs (top (waiting_queue s')) = {#io_Q#}
        \<and> rand_calls s' = 200)
   \<and> (\<exists>t'. Simulator_Process_IO_Priority first_rand io_example_Priority = Some t'
        \<and> procs (top (ready_queue t')) = {#io_P#} \<and> procs (top (waiting_queue t')) = {#io_Q#}
        \<and> rand_calls t' = 200)"
proof -
  have w: "waiting_queue io_example = io_waiting" "waiting_queue io_example_Priority = io_waiting"
    "rand_calls io_example = 0" "rand_calls io_example_Priority = 0"
    "front (ready_queue io_example) = []" "q_count (ready_queue io_example) = 0"
    "ready_queue io_example_Priority = Priority_Init SJF_Compare"
    by (simp_all add: io_example_def io_example_Priority_def Simulator_Init_Queue_def
        Simulator_Init_Priority_def Simulator_Init_def Queue_Init_def)
  have c: "compare io_waiting = IO_Burst_Compare" by (simp add: io_waiting_def)
  have hq: "pq_ok (waiting_queue io_example) \<and> compare (waiting_queue io_example) = IO_Burst_Compare
      \<and> q_count (ready_queue io_example) = length (front (ready_queue io_example))"
    using w c pq_ok_io_waiting by simp
  have hp: "pq_ok (waiting_queue io_example_Priority)
      \<and> compare (waiting_queue io_example_Priority) = IO_Burst_Compare
      \<and> pq_ok (ready_queue io_example_Priority)
      \<and> (compare (ready_queue io_example_Priority) = SJF_Compare
          \<or> compare (ready_queue io_example_Priority) = Priority_Compare)"
    using w c pq_ok_io_waiting pq_ok_Init by (simp add: Priority_Init_def)
  have t: "trials first_rand 0 2 = [True, False]"
    using trial_first_rand by (simp add: numeral_2_eq_2)
  have i: "filter interrupted (zip [io_P, io_Q] [True, False]) = [(io_P, True)]"
    "filter (\<lambda>d. \<not> interrupted d) (zip [io_P, io_Q] [True, False]) = [(io_Q, False)]"
    by (simp_all add: interrupted_def io_P_def io_Q_def)
  obtain ps s' where s': "drain (waiting_queue io_example) = Some ps"
    "Simulator_Process_IO_Queue first_rand io_example = Some s'"
    "front (ready_queue s') = front (ready_queue io_example)
       @ map fst (filter interrupted (zip ps (trials first_rand (rand_calls io_example) (length ps))))"
    "procs (top (waiting_queue s'))
       = mset (map fst (filter (\<lambda>d. \<not> interrupted d)
                              (zip ps (trials first_rand (rand_calls io_example) (length ps)))))"
    "rand_calls s' = rand_calls io_example + 100 * length ps"
    using interrupt_resolution [where s = io_example and R = first_rand] hq by blast
  obtain qs t' where t': "drain (waiting_queue io_example_Priority) = Some qs"
    "Simulator_Process_IO_Priority first_rand io_example_Priority = Some t'"
    "procs (top (ready_queue t')) = procs (top (ready_queue io_example_Priority))
       + mset (map fst (filter interrupted
                         (zip qs (trials first_rand (rand_calls io_example_Priority) (length qs)))))"
    "procs (top (waiting_queue t'))
       = mset (map fst (filter (\<lambda>d. \<not> interrupted d)
                              (zip qs (trials first_rand (rand_calls io_example_Priority) (length qs)))))"
    "rand_calls t' = rand_calls io_example_Priority + 100 * length qs"
    using interrupt_resolution [where t = io_example_Priority and R = first_rand] hp by blast
  have ps: "ps = [io_P, io_Q]" "qs = [io_P, io_Q]" using s'(1) t'(1) w drain_io_waiting by simp_all
  have t2: "trials first_rand 0 (length [io_P, io_Q]) = [True, False]"
    using trial_first_rand by simp
  have "front (ready_queue s') = [] @ map fst [(io_P, True)]"
    "procs (top (waiting_queue s')) = mset (map fst [(io_Q, False)])"
    "rand_calls s' = 0 + 100 * length [io_P, io_Q]"
    using s'(3,4,5) unfolding ps w(3,5) t2 i by blast+
  then have "front (ready_queue s') = [io_P]" "procs (top (waiting_queue s')) = {#io_Q#}"
    "rand_calls s' = 200"
    by simp_all
  moreover have "procs (top (ready_queue t')) = procs (top (Priority_Init SJF_Compare))
       + mset (map fst [(io_P, True)])"
    "procs (top (waiting_queue t')) = mset (map fst [(io_Q, False)])"
    "rand_calls t' = 0 + 100 * length [io_P, io_Q]"
    using t'(3,4,5) unfolding ps w(4,7) t2 i by blast+
  then have "procs (top (ready_queue t')) = {#io_P#}" "procs (top (waiting_queue t')) = {#io_Q#}"
    "rand_calls t' = 200"
    by (simp_all add: Priority_Init_def)
  ultimately show ?thesis using hq hp s'(2) t'(2) drain_io_waiting t w(7)
    by (simp add: Priority_Init_def)
qed


text \<open>
  C10. In each of the six loops, whatever the workload, the \<^verbatim>\<open>rand()\<close> sequence and the
  number of ticks already made: the loading, dispatch and aging sub-steps of the tick
  succeed, and when \<^verbatim>\<open>Simulator_Process_IO\<close> then runs, every process in the waiting
  queue has \<open>io_burst_time\<close> at least 1, so that its decrement does not wrap around.
  (Non-Preemptive and Preemptive stand for the SJF and the Priority loop alike.)
\<close>

theorem waiting_io_positive:
  "(Simulator_GenerateProcess (Simulator_Init_Queue flg) ps = Some s0
      \<and> loop_head (FCFS_body R) s0 n = Some s
    \<longrightarrow> (\<exists>s3. Queue_before_IO s = Some s3
          \<and> (\<forall>p \<in># procs (top (waiting_queue s3)).
                1 \<le> unat (io_burst_time p)
                \<and> unat (io_burst_time p - 1) = unat (io_burst_time p) - 1)))
   \<and> (Simulator_GenerateProcess (Simulator_Init_Queue flg) ps = Some s0
      \<and> RoundRobin_head R s0 0 n = Some (s, tq)
    \<longrightarrow> (\<exists>s3. Queue_before_IO s = Some s3
          \<and> (\<forall>p \<in># procs (top (waiting_queue s3)).
                1 \<le> unat (io_burst_time p)
                \<and> unat (io_burst_time p - 1) = unat (io_burst_time p) - 1)))
   \<and> ((cmp = SJF_Compare \<or> cmp = Priority_Compare)
      \<and> Simulator_GenerateProcess (Simulator_Init_Priority flg cmp) ps = Some t0
      \<and> loop_head (NonPreemptive_body R) t0 n = Some t
    \<longrightarrow> (\<exists>t3. Priority_before_IO t = Some t3
          \<and> (\<forall>p \<in># procs (top (waiting_queue t3)).
                1 \<le> unat (io_burst_time p)
                \<and> unat (io_burst_time p - 1) = unat (io_burst_time p) - 1)))
   \<and> ((cmp = SJF_Compare \<or> cmp = Priority_Compare)
      \<and> Simulator_GenerateProcess (Simulator_Init_Priority flg cmp) ps = Some t0
      \<and> loop_head (Preemptive_body R) t0 n = Some t
    \<longrightarrow> (\<exists>t3. Priority_before_IO t = Some t3
          \<and> (\<forall>p \<in># procs (top (waiting_queue t3)).
                1 \<le> unat (io_burst_time p)
                \<and> unat (io_burst_time p - 1) = unat (io_burst_time p) - 1)))"
proof (intro conjI impI)
  assume "Simulator_GenerateProcess (Simulator_Init_Queue flg) ps = Some s0
      \<and> loop_head (FCFS_body R) s0 n = Some s"
  then have "Queue_ok s" using FCFS_head_ok by blast
  then show "\<exists>s3. Queue_before_IO s = Some s3
          \<and> (\<forall>p \<in># procs (top (waiting_queue s3)).
                1 \<le> unat (io_burst_time p)
                \<and> unat (io_burst_time p - 1) = unat (io_burst_time p) - 1)"
    using Queue_before_IO_ok io_positive_no_wrap by blast
next
  assume "Simulator_GenerateProcess (Simulator_Init_Queue flg) ps = Some s0
      \<and> RoundRobin_head R s0 0 n = Some (s, tq)"
  then have "Queue_ok s" using RR_head_ok by blast
  then show "\<exists>s3. Queue_before_IO s = Some s3
          \<and> (\<forall>p \<in># procs (top (waiting_queue s3)).
                1 \<le> unat (io_burst_time p)
                \<and> unat (io_burst_time p - 1) = unat (io_burst_time p) - 1)"
    using Queue_before_IO_ok io_positive_no_wrap by blast
next
  assume "(cmp = SJF_Compare \<or> cmp = Priority_Compare)
      \<and> Simulator_GenerateProcess (Simulator_Init_Priority flg cmp) ps = Some t0
      \<and> loop_head (NonPreemptive_body R) t0 n = Some t"
  then have "Priority_ok t" using NonPreemptive_head_ok by blast
  then show "\<exists>t3. Priority_before_IO t = Some t3
          \<and> (\<forall>p \<in># procs (top (waiting_queue t3)).
                1 \<le> unat (io_burst_time p)
                \<and> unat (io_burst_time p - 1) = unat (io_burst_time p) - 1)"
    using Priority_before_IO_ok io_positive_no_wrap by blast
next
  assume "(cmp = SJF_Compare \<or> cmp = Priority_Compare)
      \<and> Simulator_GenerateProcess (Simulator_Init_Priority flg cmp) ps = Some t0
      \<and> loop_head (Preemptive_body R) t0 n = Some t"
  then have "Priority_ok t" using Preemptive_head_ok by blast
  then show "\<exists>t3. Priority_before_IO t = Some t3
          \<and> (\<forall>p \<in># procs (top (waiting_queue t3)).
                1 \<le> unat (io_burst_time p)
                \<and> unat (io_burst_time p - 1) = unat (io_burst_time p) - 1)"
    using Priority_before_IO_ok io_positive_no_wrap by blast
qed

theorem waiting_io_positive_witness:
  "\<exists>s0. Simulator_GenerateProcess (Simulator_Init_Queue 1) [wio_P] = Some s0
     \<and> loop_head (FCFS_body odd_rand) s0 1 = Some wio_tick1
     \<and> Queue_before_IO wio_tick1 = Some wio_tick1
     \<and> top (waiting_queue wio_tick1)
         = Node Null (wio_P \<lparr> cpu_burst_time := 2, turnaround_time := 1 \<rparr>) Null
     \<and> 1 \<le> unat (io_burst_time (wio_P \<lparr> cpu_burst_time := 2, turnaround_time := 1 \<rparr>))
     \<and> unat (io_burst_time (wio_P \<lparr> cpu_burst_time := 2, turnaround_time := 1 \<rparr>) - 1)
         = unat (io_burst_time (wio_P \<lparr> cpu_burst_time := 2, turnaround_time := 1 \<rparr>)) - 1"
proof -
  obtain s0 where s0: "Simulator_GenerateProcess (Simulator_Init_Queue 1) [wio_P] = Some s0"
    "loop_head (FCFS_body odd_rand) s0 1 = Some wio_tick1"
    using wio_generate by blast
  have t: "top (waiting_queue wio_tick1)
         = Node Null (wio_P \<lparr> cpu_burst_time := 2, turnaround_time := 1 \<rparr>) Null"
    by (simp add: wio_tick1_def single_def)
  obtain s3 where s3: "Queue_before_IO wio_tick1 = Some s3"
    "\<forall>p \<in># procs (top (waiting_queue s3)).
        1 \<le> unat (io_burst_time p) \<and> unat (io_burst_time p - 1) = unat (io_burst_time p) - 1"
    using waiting_io_positive [of 1 "[wio_P]" s0 odd_rand 1 wio_tick1] s0 by blast
  then have "s3 = wio_tick1" using wio_before_IO by simp
  then show ?thesis using s0 s3 t wio_before_IO by auto
qed

text \<open>
  C7. In each of the six loops, at every tick, the waiting queue that
  \<^verbatim>\<open>Simulator_Process_IO\<close> finds is in heap order under \<^verbatim>\<open>IO_Burst_Compare\<close>, and the
  tree it leaves, with every \<open>io_burst_time\<close> decremented, is in heap order under
  \<^verbatim>\<open>IO_Burst_Compare\<close> again.
\<close>

theorem io_advance_keeps_heap_order:
  "(Simulator_GenerateProcess (Simulator_Init_Queue flg) ps = Some s0
      \<and> loop_head (FCFS_body R) s0 n = Some s
    \<longrightarrow> (\<exists>s3. Queue_before_IO s = Some s3
          \<and> compare (waiting_queue s3) = IO_Burst_Compare
          \<and> heap_ok IO_Burst_Compare (top (waiting_queue s3))
          \<and> heap_ok IO_Burst_Compare (Simulator_Process_IO (top (waiting_queue s3)))))
   \<and> (Simulator_GenerateProcess (Simulator_Init_Queue flg) ps = Some s0
      \<and> RoundRobin_head R s0 0 n = Some (s, tq)
    \<longrightarrow> (\<exists>s3. Queue_before_IO s = Some s3
          \<and> compare (waiting_queue s3) = IO_Burst_Compare
          \<and> heap_ok IO_Burst_Compare (top (waiting_queue s3))
          \<and> heap_ok IO_Burst_Compare (Simulator_Process_IO (top (waiting_queue s3)))))
   \<and> ((cmp = SJF_Compare \<or> cmp = Priority_Compare)
      \<and> Simulator_GenerateProcess (Simulator_Init_Priority flg cmp) ps = Some t0
      \<and> loop_head (NonPreemptive_body R) t0 n = Some t
    \<longrightarrow> (\<exists>t3. Priority_before_IO t = Some t3
          \<and> compare (waiting_queue t3) = IO_Burst_Compare
          \<and> heap_ok IO_Burst_Compare (top (waiting_queue t3))
          \<and> heap_ok IO_Burst_Compare (Simulator_Process_IO (top (waiting_queue t3)))))
   \<and> ((cmp = SJF_Compare \<or> cmp = Priority_Compare)
      \<and> Simulator_GenerateProcess (Simulator_Init_Priority flg cmp) ps = Some t0
      \<and> loop_head (Preemptive_body R) t0 n = Some t
    \<longrightarrow> (\<exists>t3. Priority_before_IO t = Some t3
          \<and> compare (waiting_queue t3) = IO_Burst_Compare
          \<and> heap_ok IO_Burst_Compare (top (waiting_queue t3))
          \<and> heap_ok IO_Burst_Compare (Simulator_Process_IO (top (waiting_queue t3)))))"
proof -
  have q: "\<And>s. Queue_ok s \<Longrightarrow> \<exists>s3. Queue_before_IO s = Some s3
          \<and> compare (waiting_queue s3) = IO_Burst_Compare
          \<and> heap_ok IO_Burst_Compare (top (waiting_queue s3))
          \<and> heap_ok IO_Burst_Compare (Simulator_Process_IO (top (waiting_queue s3)))"
  proof -
    fix s :: "Queue_t Simulator_t"
    assume "Queue_ok s"
    then obtain s3 where 3: "Queue_before_IO s = Some s3" "Queue_ok s3"
      "\<forall>p \<in># procs (top (waiting_queue s3)). io_burst_time p \<noteq> 0"
      using Queue_before_IO_ok by blast
    have h: "compare (waiting_queue s3) = IO_Burst_Compare"
      "heap_ok IO_Burst_Compare (top (waiting_queue s3))"
      using 3(2) by (auto simp: Queue_ok_def queues_ok_def pq_ok_def)
    then show "\<exists>s3. Queue_before_IO s = Some s3
          \<and> compare (waiting_queue s3) = IO_Burst_Compare
          \<and> heap_ok IO_Burst_Compare (top (waiting_queue s3))
          \<and> heap_ok IO_Burst_Compare (Simulator_Process_IO (top (waiting_queue s3)))"
      using 3(1) heap_ok_Process_IO[OF 3(3) h(2)] by blast
  qed
  have p: "\<And>t. Priority_ok t \<Longrightarrow> \<exists>t3. Priority_before_IO t = Some t3
          \<and> compare (waiting_queue t3) = IO_Burst_Compare
          \<and> heap_ok IO_Burst_Compare (top (waiting_queue t3))
          \<and> heap_ok IO_Burst_Compare (Simulator_Process_IO (top (waiting_queue t3)))"
  proof -
    fix t :: "Priority_Queue_t Simulator_t"
    assume "Priority_ok t"
    then obtain t3 where 3: "Priority_before_IO t = Some t3" "Priority_ok t3"
      "\<forall>p \<in># procs (top (waiting_queue t3)). io_burst_time p \<noteq> 0"
      using Priority_before_IO_ok by blast
    have h: "compare (waiting_queue t3) = IO_Burst_Compare"
      "heap_ok IO_Burst_Compare (top (waiting_queue t3))"
      using 3(2) by (auto simp: Priority_ok_def queues_ok_def pq_ok_def)
    then show "\<exists>t3. Priority_before_IO t = Some t3
          \<and> compare (waiting_queue t3) = IO_Burst_Compare
          \<and> heap_ok IO_Burst_Compare (top (waiting_queue t3))
          \<and> heap_ok IO_Burst_Compare (Simulator_Process_IO (top (waiting_queue t3)))"
      using 3(1) heap_ok_Process_IO[OF 3(3) h(2)] by blast
  qed
  show ?thesis
    using q[of s] p[of t] FCFS_head_ok[of flg ps s0 R n s] RR_head_ok[of flg ps s0 R n s tq]
      NonPreemptive_head_ok[of cmp flg ps t0 R n t] Preemptive_head_ok[of cmp flg ps t0 R n t]
    by blast
qed

theorem io_advance_keeps_heap_order_witness:
  "\<exists>s0. Simulator_GenerateProcess (Simulator_Init_Queue 1) [two_P1, two_P2] = Some s0
     \<and> loop_head (FCFS_body no_rand) s0 2 = Some two_tick2
     \<and> Queue_before_IO two_tick2 = Some two_tick2
     \<and> top (waiting_queue two_tick2)
         = Node (Node Null (two_P1 \<lparr> cpu_burst_time := 1, io_burst_time := 4,
                                      turnaround_time := 2 \<rparr>) Null)
                (two_P2 \<lparr> cpu_burst_time := 1, waiting_time := 1, turnaround_time := 2 \<rparr>)
                Null
     \<and> Simulator_Process_IO (top (waiting_queue two_tick2))
         = Node (Node Null (two_P1 \<lparr> cpu_burst_time := 1, io_burst_time := 3,
                                      turnaround_time := 3 \<rparr>) Null)
                (two_P2 \<lparr> cpu_burst_time := 1, io_burst_time := 2, waiting_time := 1,
                          turnaround_time := 3 \<rparr>)
                Null
     \<and> \<not> IO_Burst_Compare
           (two_P1 \<lparr> cpu_burst_time := 1, io_burst_time := 3, turnaround_time := 3 \<rparr>)
           (two_P2 \<lparr> cpu_burst_time := 1, io_burst_time := 2, waiting_time := 1,
                     turnaround_time := 3 \<rparr>)
     \<and> heap_ok IO_Burst_Compare (Simulator_Process_IO (top (waiting_queue two_tick2)))"
proof -
  obtain s0 where s0: "Simulator_GenerateProcess (Simulator_Init_Queue 1) [two_P1, two_P2] = Some s0"
    "loop_head (FCFS_body no_rand) s0 2 = Some two_tick2"
    using two_generate by blast
  have t: "top (waiting_queue two_tick2)
         = Node (Node Null (two_P1 \<lparr> cpu_burst_time := 1, io_burst_time := 4,
                                      turnaround_time := 2 \<rparr>) Null)
                (two_P2 \<lparr> cpu_burst_time := 1, waiting_time := 1, turnaround_time := 2 \<rparr>)
                Null"
    by (simp add: two_tick2_def)
  obtain s3 where s3: "Queue_before_IO two_tick2 = Some s3"
    "heap_ok IO_Burst_Compare (Simulator_Process_IO (top (waiting_queue s3)))"
    using io_advance_keeps_heap_order [of 1 "[two_P1, two_P2]" s0 no_rand 2 two_tick2] s0 by blast
  then have "s3 = two_tick2" using two_before_IO by simp
  then have h: "heap_ok IO_Burst_Compare (Simulator_Process_IO (top (waiting_queue two_tick2)))"
    using s3(2) by simp
  then have "\<not> IO_Burst_Compare
           (two_P1 \<lparr> cpu_burst_time := 1, io_burst_time := 3, turnaround_time := 3 \<rparr>)
           (two_P2 \<lparr> cpu_burst_time := 1, io_burst_time := 2, waiting_time := 1,
                     turnaround_time := 3 \<rparr>)"
    unfolding two_Process_IO by simp
  then show ?thesis using s0 h t two_before_IO two_Process_IO by blast
qed

end
